theory Spec2Isabelle
  imports Main
begin

section \<open>Python strings and the translation table\<close>

text \<open>
  A Python \<open>str\<close> is modelled as a \<open>string\<close>; every \<open>char\<close> stands for the code
  point with the same number (0 to 255).

  \<open>str.maketrans(x, y, z)\<close> builds a table that sends the i-th character of \<open>x\<close> to the
  i-th character of \<open>y\<close> and every character of \<open>z\<close> to \<open>None\<close>; the entries of \<open>z\<close> are
  stored last, so they win over an entry of \<open>x\<close>. \<open>str.translate\<close> deletes a character
  mapped to \<open>None\<close>, replaces a character mapped to another one and keeps a character
  that has no entry.
\<close>

type_synonym trans_table = "(char \<times> char option) list"

definition maketrans :: "string \<Rightarrow> string \<Rightarrow> string \<Rightarrow> trans_table" where
  "maketrans x y z = map (\<lambda>c. (c, None)) z @ zip x (map Some y)"

definition translate_char :: "trans_table \<Rightarrow> char \<Rightarrow> string" where
  "translate_char tbl c =
     (case map_of tbl c of
        None \<Rightarrow> [c]
      | Some None \<Rightarrow> []
      | Some (Some d) \<Rightarrow> [d])"

definition translate :: "trans_table \<Rightarrow> string \<Rightarrow> string" where
  "translate tbl s = concat (map (translate_char tbl) s)"

text \<open>\<open>_DEFAULT_REMOVAL_TABLE\<close> (lines 19-22 of autoenum.py).\<close>

definition DEFAULT_REMOVAL_TABLE :: trans_table where
  "DEFAULT_REMOVAL_TABLE =
     maketrans ''ABCDEFGHIJKLMNOPQRSTUVWXYZ'' ''abcdefghijklmnopqrstuvwxyz'' '' -_.:;,''"

text \<open>
  \<open>AutoEnum._normalize\<close> (lines 128-131) is \<open>str(x).translate(_DEFAULT_REMOVAL_TABLE)\<close>.
  \<open>normalize_str\<close> is that function on an argument that already is a plain string;
  \<open>normalize_any\<close> below adds the conversion \<open>str(x)\<close> of an arbitrary object.
\<close>

definition normalize_str :: "string \<Rightarrow> string" where
  "normalize_str s = translate DEFAULT_REMOVAL_TABLE s"

text \<open>The rule set the specification gives for the normalizer, written from its words.\<close>

definition spec_separators :: "char set" where
  "spec_separators =
     {CHR '' '', CHR ''-'', CHR ''_'', CHR ''.'', CHR '':'', CHR '';'', CHR '',''}"

definition spec_lower :: "char \<Rightarrow> char" where
  "spec_lower c =
     (if (65::nat) \<le> of_char c \<and> of_char c \<le> (90::nat)
      then char_of (of_char c + (32::nat)) else c)"

definition spec_normalize :: "string \<Rightarrow> string" where
  "spec_normalize s = map spec_lower (filter (\<lambda>c. c \<notin> spec_separators) s)"

section \<open>The text of an alias declaration\<close>

text \<open>
  \<open>alias.__str__\<close> (lines 15-16) returns \<open>'alias:' + repr(list(self.names))\<close>. The
  \<open>repr\<close> of a list of strings is Python's own: every string inside quotes (single
  quotes, or double quotes when the string has a single quote and no double quote),
  the quote character and the backslash escaped, tab, newline and carriage return as
  \<open>\t\<close>, \<open>\n\<close>, \<open>\r\<close>, every other non-printable character as \<open>\xhh\<close>, the items
  separated by a comma and a space, the whole in square brackets.
\<close>

definition py_hexdigits :: string where
  "py_hexdigits = ''0123456789abcdef''"

definition isprintable :: "char \<Rightarrow> bool" where
  "isprintable c =
     (let n = (of_char c :: nat)
      in if n < 32 then False
         else if n < 127 then True
         else if n < 161 then False
         else n \<noteq> 173)"

definition repr_quote :: "string \<Rightarrow> char" where
  "repr_quote s = (if CHR 0x27 \<in> set s \<and> CHR 0x22 \<notin> set s then CHR 0x22 else CHR 0x27)"

definition repr_char :: "char \<Rightarrow> char \<Rightarrow> string" where
  "repr_char q c =
     (if c = q \<or> c = CHR 0x5C then [CHR 0x5C, c]
      else if c = CHR 0x09 then [CHR 0x5C, CHR ''t'']
      else if c = CHR 0x0A then [CHR 0x5C, CHR ''n'']
      else if c = CHR 0x0D then [CHR 0x5C, CHR ''r'']
      else if isprintable c then [c]
      else [CHR 0x5C, CHR ''x'',
            py_hexdigits ! ((of_char c :: nat) div 16),
            py_hexdigits ! ((of_char c :: nat) mod 16)])"

definition repr_str :: "string \<Rightarrow> string" where
  "repr_str s = (let q = repr_quote s in [q] @ concat (map (repr_char q) s) @ [q])"

fun join :: "string \<Rightarrow> string list \<Rightarrow> string" where
  "join sep [] = []"
| "join sep [x] = x"
| "join sep (x # y # ys) = x @ sep @ join sep (y # ys)"

definition repr_list :: "string list \<Rightarrow> string" where
  "repr_list xs = ''['' @ join '', '' (map repr_str xs) @ '']''"

definition alias_str :: "string list \<Rightarrow> string" where
  "alias_str names = ''alias:'' @ repr_list names"

section \<open>Enumeration types, members and Python values\<close>

text \<open>
  A member of an \<open>AutoEnum\<close> subclass is declared in the class body either with
  \<open>auto()\<close> or with \<open>alias(...)\<close>. A member object carries its class (the identity of
  the class object and \<open>__class__.__name__\<close>), its \<open>name\<close> and its declaration. Members
  are singletons: the object is determined by its class and its name, so equality of
  the records below is Python's \<open>is\<close>.
\<close>

datatype decl = Auto | Alias "string list"

record member =
  owner :: nat
  owner_name :: string
  name :: string
  decl :: decl

text \<open>
  A class is the identity of the class object, its \<open>__name__\<close> and the assignments of
  its body in the order written (a class body cannot assign a member name twice: the
  class statement raises \<open>TypeError\<close>).
\<close>

record enum_cls =
  cls_id :: nat
  cls_name :: string
  body :: "(string \<times> decl) list"

text \<open>
  \<open>e.value\<close>: \<open>_generate_next_value_\<close> (lines 37-38) makes the value of an \<open>auto()\<close>
  member its name; the class mixes in \<open>str\<close>, so the value of a member declared with an
  \<open>alias\<close> object is the \<open>str\<close> of that object.
\<close>

definition member_value :: "member \<Rightarrow> string" where
  "member_value e = (case decl e of Auto \<Rightarrow> name e | Alias names \<Rightarrow> alias_str names)"

text \<open>One member object for every assignment of the class body.\<close>

definition class_entries :: "enum_cls \<Rightarrow> member list" where
  "class_entries cls =
     map (\<lambda>(n, d). \<lparr>owner = cls_id cls, owner_name = cls_name cls, name = n, decl = d\<rparr>)
       (body cls)"

text \<open>
  \<open>Enum\<close> creates the members in the order of the body. An assignment whose value
  equals the value of a member created before it creates no member: its name becomes
  a second name of that member and is left out of the iteration of the class. So two
  assignments with the same alias list give one member. \<open>canonical_members seen es\<close>
  goes through the assignments \<open>es\<close> with the members \<open>seen\<close> created so far.
\<close>

fun canonical_members :: "member list \<Rightarrow> member list \<Rightarrow> member list" where
  "canonical_members seen [] = seen"
| "canonical_members seen (e # es) =
     (if member_value e \<in> set (map member_value seen)
      then canonical_members seen es
      else canonical_members (seen @ [e]) es)"

text \<open>\<open>list(cls)\<close>: the members in declaration order.\<close>

definition list_cls :: "enum_cls \<Rightarrow> member list" where
  "list_cls cls = canonical_members [] (class_entries cls)"

datatype pyval = PyNone | PyInt int | PyStr string | PyMember member

section \<open>Errors\<close>

text \<open>
  Every failure below is a \<open>ValueError\<close>; the constructors tell the messages apart,
  under the names the specification gives them:
  \<^item> \<open>DefinitionCollisionError n k\<close>: \<open>Cannot register enum "n"; another enum with the
    same normalized name "k" already exists.\<close>
  \<^item> \<open>TypeMismatchError\<close>: \<open>Input should be a string; found type ...\<close>
  \<^item> \<open>NotFoundError x\<close>: \<open>Could not find enum with value x; available values are: ...\<close>
  \<^item> \<open>LiteralEvalError\<close>: raised by \<open>ast.literal_eval\<close> on a text that is no literal.
  \<^item> \<open>IntMaxStrDigitsError\<close>: raised by \<open>str\<close> on an integer, \<open>Exceeds the limit (4300
    digits) for integer string conversion\<close>.
\<close>

datatype error =
    DefinitionCollisionError string string
  | TypeMismatchError
  | NotFoundError pyval
  | LiteralEvalError
  | IntMaxStrDigitsError

section \<open>The string form of a value\<close>

text \<open>Decimal digits of a natural number.\<close>

fun str_nat :: "nat \<Rightarrow> string" where
  "str_nat n =
     (if n < 10 then [py_hexdigits ! n]
      else str_nat (n div 10) @ [py_hexdigits ! (n mod 10)])"

declare str_nat.simps [simp del]

text \<open>
  \<open>str\<close> of an integer. CPython refuses to print an integer of more than
  \<open>sys.get_int_max_str_digits()\<close> decimal digits, 4300 unless the program changes it,
  and raises \<open>ValueError\<close>; the sign does not count.
\<close>

definition int_max_str_digits :: nat where
  "int_max_str_digits = 4300"

definition str_int :: "int \<Rightarrow> error + string" where
  "str_int i =
     (let digits = str_nat (nat \<bar>i\<bar>)
      in if int_max_str_digits < length digits then Inl IntMaxStrDigitsError
         else Inr (if i < 0 then ''-'' @ digits else digits))"

text \<open>
  \<open>str(x)\<close>, which returns a string or raises; for a member it is \<open>AutoEnum.__str__\<close>
  (lines 47-48), the name.
\<close>

fun py_str :: "pyval \<Rightarrow> error + string" where
  "py_str PyNone = Inr ''None''"
| "py_str (PyInt i) = str_int i"
| "py_str (PyStr s) = Inr s"
| "py_str (PyMember m) = Inr (name m)"

text \<open>\<open>isinstance(x, str)\<close>: \<open>AutoEnum\<close> derives from \<open>str\<close>, so every member is a \<open>str\<close>.\<close>

fun isinstance_str :: "pyval \<Rightarrow> bool" where
  "isinstance_str (PyStr s) = True"
| "isinstance_str (PyMember m) = True"
| "isinstance_str PyNone = False"
| "isinstance_str (PyInt i) = False"

text \<open>\<open>isinstance(x, cls)\<close> for an enumeration class \<open>cls\<close>.\<close>

fun isinstance_cls :: "pyval \<Rightarrow> enum_cls \<Rightarrow> bool" where
  "isinstance_cls (PyMember m) cls = (owner m = cls_id cls)"
| "isinstance_cls PyNone cls = False"
| "isinstance_cls (PyInt i) cls = False"
| "isinstance_cls (PyStr s) cls = False"

text \<open>
  \<open>AutoEnum._normalize\<close> (lines 128-131) on an arbitrary object: it raises what
  \<open>str(x)\<close> raises.
\<close>

definition normalize_any :: "pyval \<Rightarrow> error + string" where
  "normalize_any x =
     (case py_str x of
        Inl err \<Rightarrow> Inl err
      | Inr s \<Rightarrow> Inr (translate DEFAULT_REMOVAL_TABLE s))"

section \<open>Identity, hashing, string form\<close>

text \<open>
  \<open>__hash__\<close> (lines 50-51) hashes the text \<open>__class__.__name__ + '.' + name\<close> with
  Python's built-in string hash, which is a parameter here. \<open>__eq__\<close> and \<open>__ne__\<close>
  (lines 53-57) are identity.
\<close>

definition hash_text :: "member \<Rightarrow> string" where
  "hash_text self = owner_name self @ ''.'' @ name self"

definition hash_member :: "(string \<Rightarrow> int) \<Rightarrow> member \<Rightarrow> int" where
  "hash_member py_hash self = py_hash (hash_text self)"

definition eq_member :: "member \<Rightarrow> pyval \<Rightarrow> bool" where
  "eq_member self other = (other = PyMember self)"

definition ne_member :: "member \<Rightarrow> pyval \<Rightarrow> bool" where
  "ne_member self other = (other \<noteq> PyMember self)"

section \<open>Dictionaries\<close>

text \<open>
  A Python \<open>dict\<close> keeps its keys in insertion order. \<open>d[k] = v\<close> replaces the value of
  a key that is present, in place, and appends the entry otherwise.
\<close>

type_synonym ('k, 'v) dict = "('k \<times> 'v) list"

fun dict_set :: "('k, 'v) dict \<Rightarrow> 'k \<Rightarrow> 'v \<Rightarrow> ('k, 'v) dict" where
  "dict_set [] k v = [(k, v)]"
| "dict_set ((k', v') # d) k v =
     (if k' = k then (k', v) # d else (k', v') # dict_set d k v)"

definition dict_in :: "'k \<Rightarrow> ('k, 'v) dict \<Rightarrow> bool" where
  "dict_in k d = (map_of d k \<noteq> None)"

section \<open>Building the resolution table\<close>

text \<open>
  \<open>cls._value2member_map_normalized_\<close> is a dictionary from normalized keys to
  members. The loops of \<open>_initialize_lookup\<close> (lines 80-105) write into it entry by
  entry, so each function below returns the error raised, if any, together with the
  dictionary as it stands at that moment.
\<close>

type_synonym table = "(string, member) dict"

definition startswith :: "string \<Rightarrow> string \<Rightarrow> bool" where
  "startswith s p = (take (length p) s = p)"

text \<open>
  \<open>literal_eval(e.value.removeprefix('alias:'))\<close> (line 95). \<open>ast.literal_eval\<close> is part
  of Python's standard library; on the \<open>repr\<close> of a list of strings it returns that
  list, so for a member declared with \<open>alias\<close> it gives the declared names back. The
  value of an \<open>auto()\<close> member is its name, an identifier of the class body, which has
  no colon and never reaches this line; the model answers \<open>LiteralEvalError\<close> there.
\<close>

definition literal_eval_names :: "member \<Rightarrow> error + string list" where
  "literal_eval_names e =
     (case decl e of Alias names \<Rightarrow> Inr names | Auto \<Rightarrow> Inl LiteralEvalError)"

text \<open>The inner loop over \<open>e_names\<close> (lines 96-105).\<close>

fun register_aliases :: "member \<Rightarrow> string list \<Rightarrow> table \<Rightarrow> error option \<times> table" where
  "register_aliases e [] t = (None, t)"
| "register_aliases e (e_name # rest) t =
     (let normalized_e_name = normalize_str e_name
      in if normalized_e_name = normalize_str (name e) then register_aliases e rest t
         else if dict_in normalized_e_name t
           then (Some (DefinitionCollisionError e_name normalized_e_name), t)
         else register_aliases e rest (dict_set t normalized_e_name e))"

text \<open>The body of the outer loop for one member \<open>e\<close> (lines 85-105).\<close>

definition register_member :: "member \<Rightarrow> table \<Rightarrow> error option \<times> table" where
  "register_member e t =
     (let normalized_e_name = normalize_str (name e)
      in if dict_in normalized_e_name t
           then (Some (DefinitionCollisionError (name e) normalized_e_name), t)
         else
           let t1 = dict_set t normalized_e_name e
           in if startswith (member_value e) ''alias:''
              then
                let normalized_e_value = normalize_str (member_value e);
                    t2 = dict_set t1 normalized_e_value e
                in (case literal_eval_names e of
                      Inl err \<Rightarrow> (Some err, t2)
                    | Inr e_names \<Rightarrow> register_aliases e e_names t2)
              else (None, t1))"

text \<open>The outer loop \<open>for e in list(cls)\<close> (line 84).\<close>

fun register_all :: "member list \<Rightarrow> table \<Rightarrow> error option \<times> table" where
  "register_all [] t = (None, t)"
| "register_all (e # es) t =
     (case register_member e t of
        (Some err, t') \<Rightarrow> (Some err, t')
      | (None, t') \<Rightarrow> register_all es t')"

text \<open>
  The state of a class is its attribute \<open>_value2member_map_normalized_\<close>: \<open>None\<close> while
  the class dictionary has no such entry, \<open>Some t\<close> afterwards. \<open>_initialize_lookup\<close>
  stores the empty dictionary in the class before the loop starts (line 83), so the
  class holds the dictionary whether the loop completes or raises; the function
  returns the error raised, if any, and the dictionary the class holds afterwards.
\<close>

type_synonym cls_state = "table option"

definition initialize_lookup :: "enum_cls \<Rightarrow> cls_state \<Rightarrow> error option \<times> table" where
  "initialize_lookup cls st =
     (case st of
        Some t \<Rightarrow> (None, t)
      | None \<Rightarrow> register_all (list_cls cls) [])"

section \<open>Resolution\<close>

text \<open>\<open>dict.get\<close> on the table: the member stored under the key, or \<open>None\<close>.\<close>

definition table_get :: "table \<Rightarrow> string \<Rightarrow> pyval" where
  "table_get t k = (case map_of t k of None \<Rightarrow> PyNone | Some m \<Rightarrow> PyMember m)"

text \<open>
  \<open>from_str\<close> (lines 107-126). The result is the value returned or the error raised,
  with the state of the class afterwards.
\<close>

definition from_str ::
  "enum_cls \<Rightarrow> cls_state \<Rightarrow> pyval \<Rightarrow> bool \<Rightarrow> (error + pyval) \<times> cls_state" where
  "from_str cls st enum_value raise_error =
     (if isinstance_cls enum_value cls then (Inr enum_value, st)
      else if enum_value = PyNone \<and> \<not> raise_error then (Inr PyNone, st)
      else if \<not> isinstance_str enum_value \<and> raise_error then (Inl TypeMismatchError, st)
      else
        (case initialize_lookup cls st of
           (Some err, t) \<Rightarrow> (Inl err, Some t)
         | (None, t) \<Rightarrow>
             (case normalize_any enum_value of
                Inl err \<Rightarrow> (Inl err, Some t)
              | Inr key \<Rightarrow>
                  (let enum_obj = table_get t key
                   in if enum_obj = PyNone \<and> raise_error
                      then (Inl (NotFoundError enum_value), Some t)
                      else (Inr enum_obj, Some t)))))"

text \<open>\<open>matches_any\<close> (lines 62-64).\<close>

definition matches_any :: "enum_cls \<Rightarrow> cls_state \<Rightarrow> pyval \<Rightarrow> (error + bool) \<times> cls_state" where
  "matches_any cls st enum_value =
     (case from_str cls st enum_value False of
        (Inl err, st') \<Rightarrow> (Inl err, st')
      | (Inr r, st') \<Rightarrow> (Inr (r \<noteq> PyNone), st'))"

section \<open>Converting the keys of a mapping\<close>

text \<open>
  \<open>convert_keys\<close> (lines 133-147): the loop over \<open>d.items()\<close> with the dictionary
  \<open>out_dict\<close> built so far. \<open>from_str\<close> is called once in the test and once more for the
  new key.
\<close>

fun convert_keys_loop ::
  "enum_cls \<Rightarrow> cls_state \<Rightarrow> (pyval, 'v) dict \<Rightarrow> (pyval, 'v) dict
     \<Rightarrow> (error + (pyval, 'v) dict) \<times> cls_state" where
  "convert_keys_loop cls st [] out_dict = (Inr out_dict, st)"
| "convert_keys_loop cls st ((k, v) # rest) out_dict =
     (if isinstance_str k then
        (case from_str cls st k False of
           (Inl err, st1) \<Rightarrow> (Inl err, st1)
         | (Inr r, st1) \<Rightarrow>
             if r \<noteq> PyNone then
               (case from_str cls st1 k False of
                  (Inl err, st2) \<Rightarrow> (Inl err, st2)
                | (Inr r', st2) \<Rightarrow> convert_keys_loop cls st2 rest (dict_set out_dict r' v))
             else convert_keys_loop cls st1 rest (dict_set out_dict k v))
      else convert_keys_loop cls st rest (dict_set out_dict k v))"

definition convert_keys ::
  "enum_cls \<Rightarrow> cls_state \<Rightarrow> (pyval, 'v) dict \<Rightarrow> (error + (pyval, 'v) dict) \<times> cls_state" where
  "convert_keys cls st d = convert_keys_loop cls st d []"

text \<open>
  \<open>convert_keys_to_str\<close> (lines 149-163); it never resolves anything, and the only
  call that could raise is \<open>str(k)\<close>.
\<close>

fun convert_keys_to_str_loop ::
  "enum_cls \<Rightarrow> (pyval, 'v) dict \<Rightarrow> (pyval, 'v) dict \<Rightarrow> error + (pyval, 'v) dict" where
  "convert_keys_to_str_loop cls [] out_dict = Inr out_dict"
| "convert_keys_to_str_loop cls ((k, v) # rest) out_dict =
     (if isinstance_cls k cls
      then (case py_str k of
              Inl err \<Rightarrow> Inl err
            | Inr s \<Rightarrow> convert_keys_to_str_loop cls rest (dict_set out_dict (PyStr s) v))
      else convert_keys_to_str_loop cls rest (dict_set out_dict k v))"

definition convert_keys_to_str ::
  "enum_cls \<Rightarrow> (pyval, 'v) dict \<Rightarrow> error + (pyval, 'v) dict" where
  "convert_keys_to_str cls d = convert_keys_to_str_loop cls d []"

section \<open>Vocabulary of the statements\<close>

text \<open>
  The names a member is declared with: its own name, then the strings of its \<open>alias\<close>
  declaration in the order written.
\<close>

definition declared_names :: "member \<Rightarrow> string list" where
  "declared_names e = (case decl e of Auto \<Rightarrow> [] | Alias names \<Rightarrow> names)"

definition declared_keys :: "member \<Rightarrow> string list" where
  "declared_keys e = name e # declared_names e"

text \<open>
  A member name written in a class body is an identifier, so the name of an \<open>auto()\<close>
  member does not start with \<open>alias:\<close>.
\<close>

definition plain_auto :: "member \<Rightarrow> bool" where
  "plain_auto e = (case decl e of Auto \<Rightarrow> \<not> startswith (name e) ''alias:'' | Alias names \<Rightarrow> True)"

definition auto_names_plain :: "enum_cls \<Rightarrow> bool" where
  "auto_names_plain cls = list_all plain_auto (list_cls cls)"

definition is_collision :: "error option \<Rightarrow> bool" where
  "is_collision r = (case r of Some (DefinitionCollisionError n k) \<Rightarrow> True | _ \<Rightarrow> False)"

text \<open>
  The text of \<open>str(x)\<close> where it returns (it does for every string and member), what
  \<open>convert_keys\<close> does to one key once the table \<open>t\<close> is built, what
  \<open>convert_keys_to_str\<close> does to one key, and the loop both share: every entry is
  stored under its new key, in order.
\<close>

definition str_text :: "pyval \<Rightarrow> string" where
  "str_text x = (case py_str x of Inl err \<Rightarrow> [] | Inr s \<Rightarrow> s)"

definition converted_key :: "enum_cls \<Rightarrow> table \<Rightarrow> pyval \<Rightarrow> pyval" where
  "converted_key cls t k =
     (if isinstance_cls k cls then k
      else if isinstance_str k \<and> table_get t (normalize_str (str_text k)) \<noteq> PyNone
        then table_get t (normalize_str (str_text k))
      else k)"

definition str_key :: "enum_cls \<Rightarrow> pyval \<Rightarrow> pyval" where
  "str_key cls k = (if isinstance_cls k cls then PyStr (str_text k) else k)"

definition rekey :: "('k \<Rightarrow> 'k) \<Rightarrow> ('k, 'v) dict \<Rightarrow> ('k, 'v) dict \<Rightarrow> ('k, 'v) dict" where
  "rekey f d out = fold (\<lambda>(k, v) acc. dict_set acc (f k) v) d out"

text \<open>\<open>convert_keys\<close> followed by \<open>convert_keys_to_str\<close>.\<close>

definition round_trip ::
  "enum_cls \<Rightarrow> cls_state \<Rightarrow> (pyval, 'v) dict \<Rightarrow> error + (pyval, 'v) dict" where
  "round_trip cls st d =
     (case fst (convert_keys cls st d) of
        Inl err \<Rightarrow> Inl err
      | Inr d' \<Rightarrow> convert_keys_to_str cls d')"

section \<open>Example classes\<close>

text \<open>
  \<^verbatim>\<open>class Shadowed(AutoEnum):  A = alias("alias['c']");  B = alias('c')\<close>
\<close>

definition Shadowed :: enum_cls where
  "Shadowed = \<lparr>cls_id = 1, cls_name = ''Shadowed'',
     body = [(''A'', Alias [''alias['c']'']), (''B'', Alias [''c''])]\<rparr>"

definition shadowed_A :: member where
  "shadowed_A = \<lparr>owner = 1, owner_name = ''Shadowed'', name = ''A'',
     decl = Alias [''alias['c']'']\<rparr>"

definition shadowed_B :: member where
  "shadowed_B = \<lparr>owner = 1, owner_name = ''Shadowed'', name = ''B'', decl = Alias [''c'']\<rparr>"

text \<open>\<^verbatim>\<open>class Colliding(AutoEnum):  A_B = auto();  AB = auto()\<close>\<close>

definition Colliding :: enum_cls where
  "Colliding = \<lparr>cls_id = 2, cls_name = ''Colliding'', body = [(''A_B'', Auto), (''AB'', Auto)]\<rparr>"

definition colliding_A_B :: member where
  "colliding_A_B = \<lparr>owner = 2, owner_name = ''Colliding'', name = ''A_B'', decl = Auto\<rparr>"

text \<open>
  \<^verbatim>\<open>class Kinds(AutoEnum):  DATA_TYPE = auto();  FIVE = alias('5')\<close>
  and the table its first resolution builds.
\<close>

definition Kinds :: enum_cls where
  "Kinds = \<lparr>cls_id = 3, cls_name = ''Kinds'',
     body = [(''DATA_TYPE'', Auto), (''FIVE'', Alias [''5''])]\<rparr>"

definition kinds_DATA_TYPE :: member where
  "kinds_DATA_TYPE = \<lparr>owner = 3, owner_name = ''Kinds'', name = ''DATA_TYPE'', decl = Auto\<rparr>"

definition kinds_FIVE :: member where
  "kinds_FIVE = \<lparr>owner = 3, owner_name = ''Kinds'', name = ''FIVE'', decl = Alias [''5'']\<rparr>"

definition kinds_table :: table where
  "kinds_table =
     [(''datatype'', kinds_DATA_TYPE), (''five'', kinds_FIVE),
      (''alias['5']'', kinds_FIVE), (''5'', kinds_FIVE)]"

text \<open>An integer of 4301 digits.\<close>

definition huge_int :: int where
  "huge_int = 10 ^ 4300"

text \<open>
  \<^verbatim>\<open>class Palette(AutoEnum):  RED = alias('Crimson', 'rouge');  GREEN = auto();  CRIMSON = auto()\<close>
\<close>

definition Palette :: enum_cls where
  "Palette = \<lparr>cls_id = 4, cls_name = ''Palette'',
     body = [(''RED'', Alias [''Crimson'', ''rouge'']), (''GREEN'', Auto), (''CRIMSON'', Auto)]\<rparr>"

text \<open>\<^verbatim>\<open>class Dup(AutoEnum):  A = alias('x');  B = alias('x')\<close>\<close>

definition Dup :: enum_cls where
  "Dup = \<lparr>cls_id = 8, cls_name = ''Dup'', body = [(''A'', Alias [''x'']), (''B'', Alias [''x''])]\<rparr>"

definition dup_A :: member where
  "dup_A = \<lparr>owner = 8, owner_name = ''Dup'', name = ''A'', decl = Alias [''x'']\<rparr>"

text \<open>
  The member \<open>RED\<close> of three different classes: two classes that are both called
  \<open>Color\<close> (defined in two modules) and a class called \<open>Light\<close>.
\<close>

definition red_here :: member where
  "red_here = \<lparr>owner = 5, owner_name = ''Color'', name = ''RED'', decl = Auto\<rparr>"

definition red_there :: member where
  "red_there = \<lparr>owner = 6, owner_name = ''Color'', name = ''RED'', decl = Auto\<rparr>"

definition red_light :: member where
  "red_light = \<lparr>owner = 7, owner_name = ''Light'', name = ''RED'', decl = Auto\<rparr>"

section \<open>The normalizer\<close>

lemma translate_char_default:
  "translate_char DEFAULT_REMOVAL_TABLE c =
     (if c \<in> spec_separators then [] else [spec_lower c])"
proof (cases c)
  case (Char b0 b1 b2 b3 b4 b5 b6 b7)
  then show ?thesis
    by (cases b0; cases b1; cases b2; cases b3; cases b4; cases b5; cases b6; cases b7)
       (simp_all add: translate_char_def DEFAULT_REMOVAL_TABLE_def maketrans_def
          spec_separators_def spec_lower_def char_of_def bit_iff_odd_drop_bit)
qed

lemma normalize_str_spec: "normalize_str s = spec_normalize s"
  by (induction s)
     (simp_all add: normalize_str_def translate_def spec_normalize_def translate_char_default)

lemma spec_lower_stable:
  assumes "c \<notin> spec_separators"
  shows "spec_lower c \<notin> spec_separators \<and> spec_lower (spec_lower c) = spec_lower c"
proof (cases c)
  case (Char b0 b1 b2 b3 b4 b5 b6 b7)
  with assms show ?thesis
    by (cases b0; cases b1; cases b2; cases b3; cases b4; cases b5; cases b6; cases b7)
       (simp_all add: spec_separators_def spec_lower_def char_of_def bit_iff_odd_drop_bit)
qed

lemma spec_normalize_idem: "spec_normalize (spec_normalize s) = spec_normalize s"
  by (induction s) (simp_all add: spec_normalize_def spec_lower_stable)

text \<open>
  C4. The normalizer is idempotent, and it is the rule set of the specification:
  the seven separators are deleted, the letters A to Z are lowered, every other
  character is kept.
\<close>

theorem normalize_idempotent:
  "normalize_str (normalize_str s) = normalize_str s \<and> normalize_str s = spec_normalize s"
  by (simp add: normalize_str_spec spec_normalize_idem)

theorem normalize_idempotent_witness:
  "normalize_str (normalize_str ''Data_Type: A-b.c;d,e f'') = ''datatypeabcdef''
   \<and> normalize_str ''Data_Type: A-b.c;d,e f'' = ''datatypeabcdef''"
proof -
  have "spec_normalize ''Data_Type: A-b.c;d,e f'' = ''datatypeabcdef''"
    by (simp add: spec_normalize_def spec_separators_def spec_lower_def
          char_of_def bit_iff_odd_drop_bit)
  with normalize_idempotent [of "''Data_Type: A-b.c;d,e f''"] show ?thesis
    by metis
qed

section \<open>Dictionaries\<close>

lemma map_of_dict_set: "map_of (dict_set d k v) k' = (if k' = k then Some v else map_of d k')"
  by (induction d) auto

lemma dict_in_dict_set: "dict_in k' (dict_set d k v) = (k' = k \<or> dict_in k' d)"
  by (simp add: dict_in_def map_of_dict_set)

lemma dict_in_empty: "\<not> dict_in k []"
  by (simp add: dict_in_def)

lemma dict_in_keys: "dict_in k d = (k \<in> fst ` set d)"
  by (simp add: dict_in_def map_of_eq_None_iff)

lemma dict_set_fresh: "\<not> dict_in k d \<Longrightarrow> dict_set d k v = d @ [(k, v)]"
  by (induction d) (auto simp: dict_in_def)

lemma map_of_dict_set_Some:
  "map_of (dict_set d k v) k' = Some m \<Longrightarrow> m = v \<or> map_of d k' = Some m"
  by (simp add: map_of_dict_set split: if_splits)

lemma dict_set_keys: "fst ` set (dict_set d k v) = insert k (fst ` set d)"
proof (rule set_eqI)
  fix x
  show "x \<in> fst ` set (dict_set d k v) \<longleftrightarrow> x \<in> insert k (fst ` set d)"
    using dict_in_dict_set [of x d k v] by (simp add: dict_in_keys)
qed

lemma dict_set_distinct: "distinct (map fst d) \<Longrightarrow> distinct (map fst (dict_set d k v))"
  by (induction d) (auto simp: dict_set_keys)

section \<open>The table only grows\<close>

text \<open>
  No step of the build removes a key: a key that is in the table stays in it, whatever
  happens afterwards.
\<close>

lemma register_aliases_keeps: "dict_in k t \<Longrightarrow> dict_in k (snd (register_aliases e ns t))"
  by (induction ns arbitrary: t) (auto simp: Let_def dict_in_dict_set)

lemma register_member_keeps: "dict_in k t \<Longrightarrow> dict_in k (snd (register_member e t))"
  by (auto simp: register_member_def Let_def dict_in_dict_set register_aliases_keeps split: sum.splits)

lemma register_all_keeps: "dict_in k t \<Longrightarrow> dict_in k (snd (register_all es t))"
proof (induction es arbitrary: t)
  case Nil
  then show ?case by simp
next
  case (Cons e es)
  obtain r t' where rm: "register_member e t = (r, t')" by (cases "register_member e t")
  with Cons.prems register_member_keeps [of k t e] have "dict_in k t'" by simp
  with Cons.IH rm show ?case by (cases r) auto
qed

section \<open>Collisions\<close>

text \<open>The alias loop raises nothing but a collision.\<close>

lemma register_aliases_error: "is_collision (fst (register_aliases e ns t)) \<or> fst (register_aliases e ns t) = None"
  by (induction ns arbitrary: t) (auto simp: Let_def is_collision_def)

text \<open>When the alias loop completes, every alias has its key in the table.\<close>

lemma register_aliases_inserts:
  "fst (register_aliases e ns t) = None \<Longrightarrow> dict_in (normalize_str (name e)) t \<Longrightarrow> a \<in> set ns
   \<Longrightarrow> dict_in (normalize_str a) (snd (register_aliases e ns t))"
proof (induction ns arbitrary: t)
  case Nil
  then show ?case by simp
next
  case (Cons n ns)
  show ?case
  proof (cases "normalize_str n = normalize_str (name e)")
    case True
    with Cons show ?thesis
      by (auto simp: register_aliases_keeps)
  next
    case False
    with Cons.prems have nin: "\<not> dict_in (normalize_str n) t"
      by (auto simp: Let_def split: if_splits)
    let ?t = "dict_set t (normalize_str n) e"
    from False nin have step: "register_aliases e (n # ns) t = register_aliases e ns ?t"
      by (simp add: Let_def)
    show ?thesis
    proof (cases "a = n")
      case True
      have "dict_in (normalize_str n) ?t" by (simp add: dict_in_dict_set)
      then show ?thesis using True step by (simp add: register_aliases_keeps)
    next
      case False
      with Cons.prems have "a \<in> set ns" by simp
      moreover have "dict_in (normalize_str (name e)) ?t"
        using Cons.prems(2) by (simp add: dict_in_dict_set)
      moreover have "fst (register_aliases e ns ?t) = None" using Cons.prems(1) step by simp
      ultimately show ?thesis using Cons.IH step by simp
    qed
  qed
qed

text \<open>
  The running check of the alias loop: an alias whose key is in the table already,
  whoever stored it, stops the loop with a collision, unless the key is the member's
  own normalized name.
\<close>

lemma register_aliases_collides:
  "a \<in> set ns \<Longrightarrow> normalize_str a \<noteq> normalize_str (name e) \<Longrightarrow> dict_in (normalize_str a) t
   \<Longrightarrow> is_collision (fst (register_aliases e ns t))"
proof (induction ns arbitrary: t)
  case Nil
  then show ?case by simp
next
  case (Cons n ns)
  then show ?case
    by (auto simp: Let_def is_collision_def dict_in_dict_set)
qed

lemma register_member_error:
  "plain_auto e \<Longrightarrow> is_collision (fst (register_member e t)) \<or> fst (register_member e t) = None"
  using register_aliases_error
  by (auto simp: register_member_def Let_def is_collision_def plain_auto_def member_value_def
        literal_eval_names_def split: decl.splits)

lemma register_member_inserts:
  assumes "fst (register_member e t) = None" and "a \<in> set (declared_keys e)"
  shows "dict_in (normalize_str a) (snd (register_member e t))"
proof -
  let ?k = "normalize_str (name e)"
  from assms(1) have fresh: "\<not> dict_in ?k t"
    by (auto simp: register_member_def Let_def split: if_splits)
  have name_in: "dict_in ?k (snd (register_member e t))"
    using fresh
    by (auto simp: register_member_def Let_def dict_in_dict_set register_aliases_keeps
          split: sum.splits)
  show ?thesis
  proof (cases "a = name e")
    case True
    with name_in show ?thesis by simp
  next
    case False
    with assms(2) obtain ns where d: "decl e = Alias ns" and a: "a \<in> set ns"
      by (cases "decl e") (auto simp: declared_keys_def declared_names_def)
    let ?t2 = "dict_set (dict_set t ?k e) (normalize_str (member_value e)) e"
    have sw: "startswith (member_value e) ''alias:''"
      using d by (simp add: member_value_def alias_str_def startswith_def)
    have rm: "register_member e t = register_aliases e ns ?t2"
      using fresh d sw by (simp add: register_member_def Let_def literal_eval_names_def)
    have "dict_in ?k ?t2" by (simp add: dict_in_dict_set)
    with register_aliases_inserts [of e ns ?t2 a] assms(1) a rm show ?thesis by simp
  qed
qed

text \<open>
  The running check for one member: when the key of its name or of one of its aliases
  is in the table already, registering the member fails with a collision.
\<close>

lemma register_member_collides:
  assumes "a \<in> set (declared_keys e)" and "dict_in (normalize_str a) t"
  shows "is_collision (fst (register_member e t))"
proof (cases "dict_in (normalize_str (name e)) t")
  case True
  then show ?thesis by (simp add: register_member_def Let_def is_collision_def)
next
  case False
  let ?k = "normalize_str (name e)"
  from False assms have ne: "normalize_str a \<noteq> ?k" by auto
  with assms(1) obtain ns where d: "decl e = Alias ns" and a: "a \<in> set ns"
    by (cases "decl e") (auto simp: declared_keys_def declared_names_def)
  let ?t2 = "dict_set (dict_set t ?k e) (normalize_str (member_value e)) e"
  have sw: "startswith (member_value e) ''alias:''"
    using d by (simp add: member_value_def alias_str_def startswith_def)
  have rm: "register_member e t = register_aliases e ns ?t2"
    using False d sw by (simp add: register_member_def Let_def literal_eval_names_def)
  have "dict_in (normalize_str a) ?t2" using assms(2) by (simp add: dict_in_dict_set)
  with register_aliases_collides [of a ns e ?t2] a ne rm show ?thesis by simp
qed

lemma register_all_error:
  "list_all plain_auto es \<Longrightarrow> is_collision (fst (register_all es t)) \<or> fst (register_all es t) = None"
proof (induction es arbitrary: t)
  case Nil
  then show ?case by simp
next
  case (Cons e es)
  obtain r t' where rm: "register_member e t = (r, t')" by (cases "register_member e t")
  show ?case
  proof (cases r)
    case None
    with rm Cons show ?thesis by simp
  next
    case (Some err)
    with rm register_member_error [of e t] Cons.prems show ?thesis by simp
  qed
qed

lemma register_all_later_collides:
  assumes "list_all plain_auto es" and "e \<in> set es" and "a \<in> set (declared_keys e)"
    and "dict_in (normalize_str a) t"
  shows "is_collision (fst (register_all es t))"
  using assms
proof (induction es arbitrary: t)
  case Nil
  then show ?case by simp
next
  case (Cons e' es)
  obtain r t' where rm: "register_member e' t = (r, t')" by (cases "register_member e' t")
  show ?case
  proof (cases r)
    case (Some err)
    with rm register_member_error [of e' t] Cons.prems(1) show ?thesis by simp
  next
    case None
    have keep: "dict_in (normalize_str a) t'"
      using register_member_keeps [of "normalize_str a" t e'] Cons.prems(4) rm by simp
    have "e \<noteq> e'"
    proof
      assume "e = e'"
      with register_member_collides [of a e' t] Cons.prems rm None show False
        by (simp add: is_collision_def)
    qed
    with Cons.prems have "e \<in> set es" by simp
    with Cons.IH [of t'] Cons.prems keep have "is_collision (fst (register_all es t'))" by simp
    with rm None show ?thesis by simp
  qed
qed

lemma register_all_collision:
  assumes "list_all plain_auto es" and "i < j" and "j < length es"
    and "a \<in> set (declared_keys (es ! i))" and "b \<in> set (declared_keys (es ! j))"
    and "normalize_str a = normalize_str b"
  shows "is_collision (fst (register_all es t))"
  using assms
proof (induction es arbitrary: t i j)
  case Nil
  then show ?case by simp
next
  case (Cons e es)
  obtain r t' where rm: "register_member e t = (r, t')" by (cases "register_member e t")
  show ?case
  proof (cases r)
    case (Some err)
    with rm register_member_error [of e t] Cons.prems(1) show ?thesis by simp
  next
    case None
    from Cons.prems obtain j' where j: "j = Suc j'" by (cases j) auto
    have pl: "list_all plain_auto es" using Cons.prems(1) by simp
    show ?thesis
    proof (cases i)
      case 0
      with Cons.prems have "a \<in> set (declared_keys e)" by simp
      with register_member_inserts [of e t a] rm None
      have "dict_in (normalize_str a) t'" by simp
      then have "dict_in (normalize_str b) t'" using Cons.prems(6) by simp
      moreover have "es ! j' \<in> set es" using Cons.prems(3) j by simp
      moreover have "b \<in> set (declared_keys (es ! j'))" using Cons.prems(5) j by simp
      ultimately have "is_collision (fst (register_all es t'))"
        using register_all_later_collides [of es "es ! j'" b t'] pl by simp
      with rm None show ?thesis by simp
    next
      case (Suc i')
      with Cons.prems j have "i' < j'" "j' < length es"
        "a \<in> set (declared_keys (es ! i'))" "b \<in> set (declared_keys (es ! j'))" by simp_all
      with Cons.IH [of i' j' t'] pl Cons.prems(6)
      have "is_collision (fst (register_all es t'))" by simp
      with rm None show ?thesis by simp
    qed
  qed
qed

text \<open>
  The keys of names and aliases are checked. Two such keys of two different members
  of the class that normalize identically (two names, a name and an alias of the other
  member, or two aliases) make the build fail with a \<open>DefinitionCollisionError\<close>, in
  whatever order the two members are declared: every name and every alias is checked
  against all the keys stored so far, the aliases and the composite keys of earlier
  members included. The first resolution of a string, which starts the build, raises
  that error. (Names are those of a class body, see \<open>plain_auto\<close>.)
\<close>

lemma collision_detected:
  assumes plain: "auto_names_plain cls"
    and i: "i < length (list_cls cls)" and j: "j < length (list_cls cls)" and ij: "i \<noteq> j"
    and a: "a \<in> set (declared_keys (list_cls cls ! i))"
    and b: "b \<in> set (declared_keys (list_cls cls ! j))"
    and ab: "normalize_str a = normalize_str b"
  shows "(\<exists>n k. fst (initialize_lookup cls None) = Some (DefinitionCollisionError n k))
         \<and> (\<exists>n k. fst (from_str cls None (PyStr s) r) = Inl (DefinitionCollisionError n k))"
proof -
  let ?es = "list_cls cls"
  have pl: "list_all plain_auto ?es" using plain by (simp add: auto_names_plain_def)
  have col: "is_collision (fst (register_all ?es []))"
  proof (cases "i < j")
    case True
    with register_all_collision [OF pl True j a b ab] show ?thesis by simp
  next
    case False
    with ij have "j < i" by simp
    with register_all_collision [OF pl this i b a] ab show ?thesis by simp
  qed
  then obtain n k where e: "fst (register_all ?es []) = Some (DefinitionCollisionError n k)"
    by (auto simp: is_collision_def split: option.splits error.splits)
  then have "fst (initialize_lookup cls None) = Some (DefinitionCollisionError n k)"
    by (simp add: initialize_lookup_def)
  moreover from this have "fst (from_str cls None (PyStr s) r) = Inl (DefinitionCollisionError n k)"
    by (cases "initialize_lookup cls None") (simp add: from_str_def)
  ultimately show ?thesis by blast
qed

lemma collision_detected_example:
  "auto_names_plain Palette \<and> length (list_cls Palette) = 3
   \<and> ''Crimson'' \<in> set (declared_keys (list_cls Palette ! 0))
   \<and> ''CRIMSON'' \<in> set (declared_keys (list_cls Palette ! 2))
   \<and> normalize_str ''Crimson'' = normalize_str ''CRIMSON''
   \<and> (\<exists>n k. fst (initialize_lookup Palette None) = Some (DefinitionCollisionError n k))
   \<and> (\<exists>n k. fst (from_str Palette None (PyStr ''red'') True)
                = Inl (DefinitionCollisionError n k))"
proof -
  have p: "auto_names_plain Palette" by code_simp
  have l: "length (list_cls Palette) = 3" by code_simp
  have a: "''Crimson'' \<in> set (declared_keys (list_cls Palette ! 0))" by code_simp
  have b: "''CRIMSON'' \<in> set (declared_keys (list_cls Palette ! 2))" by code_simp
  have ab: "normalize_str ''Crimson'' = normalize_str ''CRIMSON''" by code_simp
  have i: "0 < length (list_cls Palette)" and j: "2 < length (list_cls Palette)"
    using l by simp_all
  have ij: "(0::nat) \<noteq> 2" by simp
  from collision_detected [OF p i j ij a b ab, of "''red''" True] p l a b ab
  show ?thesis by blast
qed

text \<open>
  Two assignments with the same alias list are one member, and nothing collides.
\<close>

lemma enum_alias_merged:
  "list_cls Dup = [dup_A]
   \<and> initialize_lookup Dup None = (None, [(''a'', dup_A), (''alias['x']'', dup_A), (''x'', dup_A)])"
  by code_simp

text \<open>
  C2. Not every inserted key is checked against the keys stored so far: the composite
  key of an alias list is not. When \<open>B\<close> of \<open>Shadowed\<close> is registered, its composite key
  normalizes to the same text as the alias \<open>alias['c']\<close> that \<open>A\<close> declares, that key is
  in the table at the moment line 94 stores it, and yet the build completes with all
  five keys and raises no \<open>DefinitionCollisionError\<close>.
\<close>

theorem composite_key_insert_unchecked:
  "list_cls Shadowed = [shadowed_A, shadowed_B]
   \<and> ''alias['c']'' \<in> set (declared_keys shadowed_A)
   \<and> normalize_str ''alias['c']'' = normalize_str (member_value shadowed_B)
   \<and> dict_in (normalize_str (member_value shadowed_B))
        (dict_set (snd (register_member shadowed_A [])) (normalize_str (name shadowed_B))
           shadowed_B)
   \<and> initialize_lookup Shadowed None
        = (None, snd (register_member shadowed_B (snd (register_member shadowed_A []))))
   \<and> length (snd (initialize_lookup Shadowed None)) = 5"
  by code_simp

text \<open>
  C5. The composite key of the alias list is stored without the check the names and
  the aliases get (line 94). In \<open>Shadowed\<close> the composite key of \<open>B\<close> is
  \<open>alias['c']\<close>, which is in the table already, as the key of the alias that \<open>A\<close>
  declares: registering \<open>B\<close> raises nothing and the key changes hands from \<open>A\<close> to \<open>B\<close>.
\<close>

theorem composite_key_overwrites:
  "fst (register_member shadowed_A []) = None
   \<and> normalize_str (member_value shadowed_B) = ''alias['c']''
   \<and> map_of (snd (register_member shadowed_A [])) ''alias['c']'' = Some shadowed_A
   \<and> fst (register_member shadowed_B (snd (register_member shadowed_A []))) = None
   \<and> map_of (snd (register_member shadowed_B (snd (register_member shadowed_A []))))
        ''alias['c']'' = Some shadowed_B"
  by code_simp

section \<open>What a declared name resolves to\<close>

text \<open>
  The keys of names and aliases are only stored where no entry is, so they never
  replace an entry; the composite key of an alias list is the one assignment that can.
  When the build completes, the strict resolution of a declared name or alias of a
  member is that member, provided no member declared later has a composite key equal
  to the normalized name or alias.
\<close>

lemma register_aliases_preserves:
  "fst (register_aliases e ns t) = None \<Longrightarrow> map_of t k = Some v
   \<Longrightarrow> map_of (snd (register_aliases e ns t)) k = Some v"
proof (induction ns arbitrary: t)
  case Nil
  then show ?case by simp
next
  case (Cons n ns)
  show ?case
  proof (cases "normalize_str n = normalize_str (name e)")
    case True
    with Cons show ?thesis by simp
  next
    case False
    with Cons.prems(1) have fresh: "\<not> dict_in (normalize_str n) t"
      by (auto simp: Let_def split: if_splits)
    with Cons.prems(2) have "normalize_str n \<noteq> k" by (auto simp: dict_in_def)
    with Cons.prems(2) have "map_of (dict_set t (normalize_str n) e) k = Some v"
      by (simp add: map_of_dict_set)
    with Cons.IH [of "dict_set t (normalize_str n) e"] Cons.prems(1) False fresh
    show ?thesis by (simp add: Let_def)
  qed
qed

lemma register_aliases_stores:
  "fst (register_aliases e ns t) = None \<Longrightarrow> map_of t (normalize_str (name e)) = Some e
   \<Longrightarrow> a \<in> set ns \<Longrightarrow> map_of (snd (register_aliases e ns t)) (normalize_str a) = Some e"
proof (induction ns arbitrary: t)
  case Nil
  then show ?case by simp
next
  case (Cons n ns)
  show ?case
  proof (cases "normalize_str n = normalize_str (name e)")
    case True
    then have step: "register_aliases e (n # ns) t = register_aliases e ns t" by simp
    show ?thesis
    proof (cases "a = n")
      case a: True
      with True Cons.prems step register_aliases_preserves [of e ns t "normalize_str (name e)" e]
      show ?thesis by simp
    next
      case a: False
      with Cons.prems have "a \<in> set ns" by simp
      with Cons.IH [of t] Cons.prems step show ?thesis by simp
    qed
  next
    case False
    with Cons.prems(1) have fresh: "\<not> dict_in (normalize_str n) t"
      by (auto simp: Let_def split: if_splits)
    let ?t = "dict_set t (normalize_str n) e"
    from False fresh have step: "register_aliases e (n # ns) t = register_aliases e ns ?t"
      by (simp add: Let_def)
    have ok: "fst (register_aliases e ns ?t) = None" using Cons.prems(1) step by simp
    have nm: "map_of ?t (normalize_str (name e)) = Some e"
      using Cons.prems(2) by (simp add: map_of_dict_set)
    show ?thesis
    proof (cases "a = n")
      case True
      have "map_of ?t (normalize_str n) = Some e" by (simp add: map_of_dict_set)
      with register_aliases_preserves [OF ok this] True step show ?thesis by simp
    next
      case a: False
      with Cons.prems have "a \<in> set ns" by simp
      with Cons.IH [OF ok nm] step show ?thesis by simp
    qed
  qed
qed

lemma register_member_stores:
  assumes "fst (register_member e t) = None" and "a \<in> set (declared_keys e)"
  shows "map_of (snd (register_member e t)) (normalize_str a) = Some e"
proof -
  let ?k = "normalize_str (name e)"
  let ?t1 = "dict_set t ?k e"
  let ?t2 = "dict_set ?t1 (normalize_str (member_value e)) e"
  from assms(1) have fresh: "\<not> dict_in ?k t"
    by (auto simp: register_member_def Let_def split: if_splits)
  show ?thesis
  proof (cases "decl e")
    case Auto
    then have a: "a = name e" using assms(2) by (simp add: declared_keys_def declared_names_def)
    show ?thesis
    proof (cases "startswith (member_value e) ''alias:''")
      case True
      with fresh Auto assms(1) show ?thesis
        by (simp add: register_member_def Let_def literal_eval_names_def)
    next
      case False
      with fresh a show ?thesis
        by (simp add: register_member_def Let_def map_of_dict_set)
    qed
  next
    case (Alias ns)
    have sw: "startswith (member_value e) ''alias:''"
      using Alias by (simp add: member_value_def alias_str_def startswith_def)
    have rm: "register_member e t = register_aliases e ns ?t2"
      using fresh Alias sw by (simp add: register_member_def Let_def literal_eval_names_def)
    have ok: "fst (register_aliases e ns ?t2) = None" using assms(1) rm by simp
    have nm: "map_of ?t2 ?k = Some e" by (simp add: map_of_dict_set)
    show ?thesis
    proof (cases "a = name e")
      case True
      with register_aliases_preserves [OF ok nm] rm show ?thesis by simp
    next
      case False
      with assms(2) Alias have "a \<in> set ns" by (simp add: declared_keys_def declared_names_def)
      with register_aliases_stores [OF ok nm] rm show ?thesis by simp
    qed
  qed
qed

lemma register_member_preserves:
  assumes "fst (register_member e t) = None" and "map_of t k = Some v"
    and "startswith (member_value e) ''alias:'' \<Longrightarrow> normalize_str (member_value e) \<noteq> k"
  shows "map_of (snd (register_member e t)) k = Some v"
proof -
  let ?k = "normalize_str (name e)"
  let ?t1 = "dict_set t ?k e"
  let ?t2 = "dict_set ?t1 (normalize_str (member_value e)) e"
  from assms(1) have fresh: "\<not> dict_in ?k t"
    by (auto simp: register_member_def Let_def split: if_splits)
  with assms(2) have "?k \<noteq> k" by (auto simp: dict_in_def)
  with assms(2) have t1: "map_of ?t1 k = Some v" by (simp add: map_of_dict_set)
  show ?thesis
  proof (cases "startswith (member_value e) ''alias:''")
    case False
    with fresh t1 show ?thesis by (simp add: register_member_def Let_def)
  next
    case True
    with assms(3) t1 have t2: "map_of ?t2 k = Some v" by (simp add: map_of_dict_set)
    show ?thesis
    proof (cases "literal_eval_names e")
      case (Inl err)
      with fresh True assms(1) show ?thesis by (simp add: register_member_def Let_def)
    next
      case (Inr ns)
      with fresh True have rm: "register_member e t = register_aliases e ns ?t2"
        by (simp add: register_member_def Let_def)
      with assms(1) have "fst (register_aliases e ns ?t2) = None" by simp
      from register_aliases_preserves [OF this t2] rm show ?thesis by simp
    qed
  qed
qed

lemma register_all_preserves:
  assumes "fst (register_all es t) = None" and "map_of t k = Some v"
    and "\<And>e. e \<in> set es \<Longrightarrow> startswith (member_value e) ''alias:''
           \<Longrightarrow> normalize_str (member_value e) \<noteq> k"
  shows "map_of (snd (register_all es t)) k = Some v"
  using assms
proof (induction es arbitrary: t)
  case Nil
  then show ?case by simp
next
  case (Cons e es)
  obtain r t' where rm: "register_member e t = (r, t')" by (cases "register_member e t")
  with Cons.prems(1) have r: "r = None" by (cases r) auto
  have "map_of t' k = Some v"
    using register_member_preserves [of e t k v] rm r Cons.prems(2,3) by simp
  moreover have "fst (register_all es t') = None" using Cons.prems(1) rm r by simp
  ultimately have "map_of (snd (register_all es t')) k = Some v"
    using Cons.IH [of t'] Cons.prems(3) by simp
  with rm r show ?case by simp
qed

lemma register_all_stores:
  assumes "fst (register_all es t) = None" and "i < length es"
    and "a \<in> set (declared_keys (es ! i))"
    and "\<And>j. i < j \<Longrightarrow> j < length es \<Longrightarrow> startswith (member_value (es ! j)) ''alias:''
           \<Longrightarrow> normalize_str (member_value (es ! j)) \<noteq> normalize_str a"
  shows "map_of (snd (register_all es t)) (normalize_str a) = Some (es ! i)"
  using assms
proof (induction es arbitrary: t i)
  case Nil
  then show ?case by simp
next
  case (Cons e es)
  obtain r t' where rm: "register_member e t = (r, t')" by (cases "register_member e t")
  with Cons.prems(1) have r: "r = None" by (cases r) auto
  have ok: "fst (register_all es t') = None" using Cons.prems(1) rm r by simp
  show ?case
  proof (cases i)
    case 0
    with Cons.prems(3) have "a \<in> set (declared_keys e)" by simp
    with register_member_stores [of e t a] rm r
    have st: "map_of t' (normalize_str a) = Some e" by simp
    have "map_of (snd (register_all es t')) (normalize_str a) = Some e"
    proof (rule register_all_preserves [OF ok st])
      fix e' assume e': "e' \<in> set es" and sw: "startswith (member_value e') ''alias:''"
      from e' obtain j where j: "j < length es" and ej: "es ! j = e'"
        by (auto simp: in_set_conv_nth)
      with Cons.prems(4) [of "Suc j"] 0 sw
      show "normalize_str (member_value e') \<noteq> normalize_str a" by simp
    qed
    with rm r 0 show ?thesis by simp
  next
    case (Suc i')
    have "map_of (snd (register_all es t')) (normalize_str a) = Some (es ! i')"
    proof (rule Cons.IH [OF ok])
      show "i' < length es" using Cons.prems(2) Suc by simp
      show "a \<in> set (declared_keys (es ! i'))" using Cons.prems(3) Suc by simp
    next
      fix j assume "i' < j" and "j < length es"
        and "startswith (member_value (es ! j)) ''alias:''"
      with Cons.prems(4) [of "Suc j"] Suc
      show "normalize_str (member_value (es ! j)) \<noteq> normalize_str a" by simp
    qed
    with rm r Suc show ?thesis by simp
  qed
qed

lemma declared_key_resolves:
  assumes built: "initialize_lookup cls None = (None, t)" and st: "st = None \<or> st = Some t"
    and i: "i < length (list_cls cls)"
    and a: "a \<in> set (declared_keys (list_cls cls ! i))"
    and later: "\<And>j. i < j \<Longrightarrow> j < length (list_cls cls)
           \<Longrightarrow> startswith (member_value (list_cls cls ! j)) ''alias:''
           \<Longrightarrow> normalize_str (member_value (list_cls cls ! j)) \<noteq> normalize_str a"
  shows "from_str cls st (PyStr a) True = (Inr (PyMember (list_cls cls ! i)), Some t)"
proof -
  from built have ra: "register_all (list_cls cls) [] = (None, t)"
    by (simp add: initialize_lookup_def)
  then have "fst (register_all (list_cls cls) []) = None" by simp
  from register_all_stores [OF this i a later] ra
  have "map_of t (normalize_str a) = Some (list_cls cls ! i)" by simp
  then have "table_get t (normalize_str a) = PyMember (list_cls cls ! i)"
    by (simp add: table_get_def)
  with built st show ?thesis
    by (auto simp: from_str_def initialize_lookup_def Let_def normalize_any_def
          normalize_str_def)
qed

text \<open>
  C1. \<open>Shadowed\<close> builds without an error, \<open>alias['c']\<close> is an alias that \<open>A\<close> declares,
  and its strict resolution returns \<open>B\<close>: the composite key of \<open>B\<close>, declared later, has
  replaced the entry of the alias.
\<close>

theorem alias_shadowed_by_composite_key:
  "list_cls Shadowed = [shadowed_A, shadowed_B]
   \<and> fst (initialize_lookup Shadowed None) = None
   \<and> decl shadowed_A = Alias [''alias['c']'']
   \<and> fst (from_str Shadowed None (PyStr ''alias['c']'') True) = Inr (PyMember shadowed_B)
   \<and> shadowed_B \<noteq> shadowed_A"
  by code_simp

text \<open>
  C3. The first resolution on \<open>Colliding\<close> raises the collision of \<open>AB\<close> with \<open>A_B\<close>
  and leaves the table built so far in the class; the second resolution finds the
  table there, does not build again and answers from it: \<open>a_b\<close> resolves to \<open>A_B\<close>,
  and a string that matches nothing is absent under the non-strict policy.
\<close>

theorem partial_table_served:
  "from_str Colliding None (PyStr ''a_b'') True
     = (Inl (DefinitionCollisionError ''AB'' ''ab''), Some [(''ab'', colliding_A_B)])
   \<and> from_str Colliding (Some [(''ab'', colliding_A_B)]) (PyStr ''a_b'') True
     = (Inr (PyMember colliding_A_B), Some [(''ab'', colliding_A_B)])
   \<and> from_str Colliding (Some [(''ab'', colliding_A_B)]) (PyStr ''zzz'') False
     = (Inr PyNone, Some [(''ab'', colliding_A_B)])"
  by code_simp

section \<open>Resolution against a built table\<close>

lemma kinds_built: "initialize_lookup Kinds None = (None, kinds_table)"
  by code_simp

lemma isinstance_cls_str: "isinstance_cls k cls \<Longrightarrow> isinstance_str k \<and> k \<noteq> PyNone"
  by (cases k) auto

lemma isinstance_str_not_None: "isinstance_str k \<Longrightarrow> k \<noteq> PyNone"
  by (cases k) auto

text \<open>\<open>str\<close> of a string or of a member returns.\<close>

lemma str_text_PyStr: "str_text (PyStr s) = s"
  by (simp add: str_text_def)

lemma str_text_PyMember: "str_text (PyMember m) = name m"
  by (simp add: str_text_def)

lemma py_str_isinstance_str: "isinstance_str k \<Longrightarrow> py_str k = Inr (str_text k)"
  by (cases k) (simp_all add: str_text_def)

lemma normalize_any_isinstance_str:
  "isinstance_str k \<Longrightarrow> normalize_any k = Inr (normalize_str (str_text k))"
  by (simp add: normalize_any_def normalize_str_def py_str_isinstance_str)

lemma from_str_built:
  assumes "initialize_lookup cls None = (None, t)" and "st = None \<or> st = Some t"
  shows "from_str cls st x False =
           (if isinstance_cls x cls then (Inr x, st)
            else if x = PyNone then (Inr PyNone, st)
            else (case normalize_any x of
                    Inl err \<Rightarrow> (Inl err, Some t)
                  | Inr key \<Rightarrow> (Inr (table_get t key), Some t)))"
  using assms by (auto simp: from_str_def initialize_lookup_def Let_def split: sum.splits)

lemma from_str_built_str:
  assumes "initialize_lookup cls None = (None, t)" and "st = None \<or> st = Some t"
    and "isinstance_str x" and "\<not> isinstance_cls x cls"
  shows "from_str cls st x False = (Inr (table_get t (normalize_str (str_text x))), Some t)"
  using assms(3,4) isinstance_str_not_None [of x]
  by (simp add: from_str_built [OF assms(1,2)] normalize_any_isinstance_str)

lemma table_get_cases: "table_get t k = PyNone \<or> (\<exists>m. table_get t k = PyMember m)"
  by (simp add: table_get_def split: option.splits)

lemma from_str_result:
  assumes  "fst (from_str cls st x r) = Inr y"
  shows "y = PyNone \<or> (\<exists>m. y = PyMember m)"
proof (cases "isinstance_cls x cls")
  case True
  then obtain m where "x = PyMember m" by (cases x) auto
  with True assms show ?thesis by (auto simp: from_str_def)
next
  case False
  with assms obtain t key where "y = PyNone \<or> y = table_get t key"
    by (auto simp: from_str_def Let_def split: if_splits prod.splits option.splits sum.splits)
  with table_get_cases [of t key] show ?thesis by auto
qed

text \<open>
  C6, as stated, fails: under the non-strict policy the integer 5, which is neither a
  string nor \<open>None\<close> nor a member, resolves to the member \<open>FIVE\<close> of \<open>Kinds\<close>, because
  \<open>_normalize\<close> looks up \<open>str(5)\<close>.
\<close>

theorem non_strict_int_counterexample:
  "\<not> isinstance_cls (PyInt 5) Kinds \<and> \<not> isinstance_str (PyInt 5) \<and> PyInt 5 \<noteq> PyNone
   \<and> fst (initialize_lookup Kinds None) = None
   \<and> fst (from_str Kinds None (PyInt 5) False) = Inr (PyMember kinds_FIVE)"
  by code_simp

text \<open>Digits: a number that is at least \<open>10 ^ k\<close> has more than \<open>k\<close> of them.\<close>

lemma str_nat_length: "10 ^ k \<le> n \<Longrightarrow> k < length (str_nat n)"
proof (induction k arbitrary: n)
  case 0
  show ?case by (subst str_nat.simps) simp
next
  case (Suc k)
  have "(10::nat) ^ 1 \<le> 10 ^ Suc k" by (rule power_increasing) simp_all
  from this Suc.prems have "(10::nat) ^ 1 \<le> n" by (rule order_trans)
  then have big: "\<not> n < 10" by simp
  from Suc.prems have "10 ^ k \<le> n div 10" by simp
  then have "k < length (str_nat (n div 10))" by (rule Suc.IH)
  moreover have "str_nat n = str_nat (n div 10) @ [py_hexdigits ! (n mod 10)]"
    using big by (subst str_nat.simps) simp
  ultimately show ?case by simp
qed

lemma str_int_limit:
  assumes "10 ^ k \<le> i" and "int_max_str_digits \<le> k"
  shows "str_int i = Inl IntMaxStrDigitsError"
proof -
  have "(0::int) \<le> 10 ^ k" by simp
  with assms(1) have "nat ((10::int) ^ k) \<le> nat \<bar>i\<bar>" by linarith
  then have "(10::nat) ^ k \<le> nat \<bar>i\<bar>" by (simp add: nat_power_eq)
  then have "k < length (str_nat (nat \<bar>i\<bar>))" by (rule str_nat_length)
  with assms(2) show ?thesis by (simp add: str_int_def Let_def)
qed

text \<open>
  C6, amended. On a class whose table builds, non-strict resolution raises only what
  \<open>str(input)\<close> raises (an integer of more than 4300 digits). For an input that is not
  a member of the class it returns \<open>None\<close> for \<open>None\<close> and otherwise the entry of the
  table under the normalized string form \<open>str(input)\<close>; so it returns absent exactly
  when the input is \<open>None\<close> or that key is not in the table. No type is a mismatch: a
  non-string is looked up under its string form.
\<close>

theorem non_strict_lookup:
  assumes "initialize_lookup cls None = (None, t)" and "st = None \<or> st = Some t"
    and "\<not> isinstance_cls x cls"
  shows "fst (from_str cls st x False)
           = (if x = PyNone then Inr PyNone
              else case py_str x of
                     Inl err \<Rightarrow> Inl err
                   | Inr s \<Rightarrow> Inr (table_get t (normalize_str s)))
         \<and> (fst (from_str cls st x False) = Inr PyNone)
             = (x = PyNone \<or> (\<exists>s. py_str x = Inr s \<and> \<not> dict_in (normalize_str s) t))
         \<and> (fst (from_str cls st x False) = Inl err) = (x \<noteq> PyNone \<and> py_str x = Inl err)"
  using assms
  by (auto simp: from_str_built normalize_any_def normalize_str_def table_get_def dict_in_def
        split: option.splits sum.splits)

theorem non_strict_lookup_witness:
  "initialize_lookup Kinds None = (None, kinds_table)
   \<and> \<not> isinstance_cls (PyInt 7) Kinds
   \<and> fst (from_str Kinds None (PyInt 7) False) = Inr PyNone
   \<and> \<not> isinstance_cls (PyInt huge_int) Kinds
   \<and> fst (from_str Kinds None (PyInt huge_int) False) = Inl IntMaxStrDigitsError"
proof -
  have n: "\<not> isinstance_cls (PyInt 7) Kinds" and h: "\<not> isinstance_cls (PyInt huge_int) Kinds"
    by simp_all
  have s7: "py_str (PyInt 7) = Inr ''7''" by code_simp
  have k: "\<not> dict_in (normalize_str ''7'') kinds_table" by code_simp
  have lim: "int_max_str_digits \<le> 4300" by (simp add: int_max_str_digits_def)
  have "(10::int) ^ 4300 \<le> huge_int" unfolding huge_int_def by (rule order_refl)
  from str_int_limit [OF this lim]
  have sh: "py_str (PyInt huge_int) = Inl IntMaxStrDigitsError" by (simp only: py_str.simps)
  have n7: "PyInt 7 \<noteq> PyNone" and nh: "PyInt huge_int \<noteq> PyNone" by simp_all
  from non_strict_lookup [OF kinds_built _ n, of None IntMaxStrDigitsError] s7 k n7
  have a: "fst (from_str Kinds None (PyInt 7) False) = Inr PyNone" by blast
  from non_strict_lookup [OF kinds_built _ h, of None IntMaxStrDigitsError] sh nh
  have b: "fst (from_str Kinds None (PyInt huge_int) False) = Inl IntMaxStrDigitsError"
    by blast
  from kinds_built n h a b show ?thesis by blast
qed

text \<open>
  C7, as stated, fails: \<open>matches_any\<close> is true where the non-strict resolution is
  present, not where it is absent.
\<close>

theorem matches_any_counterexample:
  "fst (matches_any Kinds None (PyStr ''Data-Type'')) = Inr True
   \<and> fst (from_str Kinds None (PyStr ''Data-Type'') False) = Inr (PyMember kinds_DATA_TYPE)
   \<and> fst (from_str Kinds None (PyStr ''Data-Type'') False) \<noteq> Inr PyNone"
  by code_simp

text \<open>
  C7, amended. \<open>matches_any(s)\<close> is true exactly when the non-strict resolution of \<open>s\<close>
  returns a member, false exactly when it returns \<open>None\<close>, raises exactly what the
  resolution raises, and leaves the class in the same state.
\<close>

theorem matches_any_present:
  "(fst (matches_any cls st s) = Inr True) = (\<exists>m. fst (from_str cls st s False) = Inr (PyMember m))
   \<and> (fst (matches_any cls st s) = Inr False) = (fst (from_str cls st s False) = Inr PyNone)
   \<and> (fst (matches_any cls st s) = Inl err) = (fst (from_str cls st s False) = Inl err)
   \<and> snd (matches_any cls st s) = snd (from_str cls st s False)"
proof -
  obtain r st' where f: "from_str cls st s False = (r, st')" by (cases "from_str cls st s False")
  show ?thesis
  proof (cases r)
    case (Inl e)
    with f show ?thesis by (simp add: matches_any_def)
  next
    case (Inr y)
    with f from_str_result [of cls st s False y] show ?thesis
      by (auto simp: matches_any_def)
  qed
qed

theorem matches_any_present_witness:
  "fst (matches_any Kinds None (PyStr ''Data-Type'')) = Inr True
   \<and> fst (matches_any Kinds None (PyStr ''nothing'')) = Inr False"
proof -
  have "fst (from_str Kinds None (PyStr ''Data-Type'') False) = Inr (PyMember kinds_DATA_TYPE)"
    by code_simp
  moreover have "fst (from_str Kinds None (PyStr ''nothing'') False) = Inr PyNone"
    by code_simp
  ultimately show ?thesis
    using matches_any_present [of Kinds None "PyStr ''Data-Type''"]
      matches_any_present [of Kinds None "PyStr ''nothing''"]
    by blast
qed

section \<open>Hash and equality\<close>

text \<open>
  C8, as stated, fails: the hash is computed from the name of the class, not from its
  identity. The members \<open>RED\<close> of two different classes that are both called \<open>Color\<close>
  have the same hash, whatever the string hash is.
\<close>

theorem same_class_name_same_hash:
  "owner red_here \<noteq> owner red_there \<and> name red_here = name red_there
   \<and> (\<forall>py_hash. hash_member py_hash red_here = hash_member py_hash red_there)"
  by (simp add: red_here_def red_there_def hash_member_def hash_text_def)

lemma append_sep_inj:
  "c \<notin> set a \<Longrightarrow> c \<notin> set b \<Longrightarrow> a @ c # x = b @ c # y \<Longrightarrow> a = b \<and> x = y"
proof (induction a arbitrary: b)
  case Nil
  then show ?case by (cases b) auto
next
  case (Cons h a)
  then show ?case by (cases b) auto
qed

lemma hash_text_inj:
  assumes "CHR ''.'' \<notin> set a" and "CHR ''.'' \<notin> set b" and "a @ ''.'' @ x = b @ ''.'' @ y"
  shows "a = b \<and> x = y"
  using append_sep_inj [OF assms(1,2), of x y] assms(3) by simp

text \<open>
  C8, amended. Two members of different classes always compare unequal. The hash of a
  member is the string hash of the text made of the class name, a dot and the member
  name, whatever the string hash is: it does not see the identity of the class.
  Members with the same name in two classes with the same class name have the same
  hash; when the two class names differ and have no dot, the hashed texts differ, so
  the hashes differ unless the string hash itself collides on two different texts.
\<close>

theorem hash_by_class_name:
  assumes "owner m1 \<noteq> owner m2"
  shows "\<not> eq_member m1 (PyMember m2) \<and> ne_member m1 (PyMember m2)
         \<and> hash_member py_hash m1 = py_hash (owner_name m1 @ ''.'' @ name m1)
         \<and> hash_member py_hash m2 = py_hash (owner_name m2 @ ''.'' @ name m2)
         \<and> (owner_name m1 = owner_name m2 \<and> name m1 = name m2
              \<longrightarrow> hash_member py_hash m1 = hash_member py_hash m2)
         \<and> (CHR ''.'' \<notin> set (owner_name m1) \<and> CHR ''.'' \<notin> set (owner_name m2)
              \<and> owner_name m1 \<noteq> owner_name m2
              \<longrightarrow> hash_text m1 \<noteq> hash_text m2
                  \<and> (hash_member py_hash m1 = hash_member py_hash m2
                       \<longrightarrow> (\<exists>s s'. s \<noteq> s' \<and> py_hash s = py_hash s')))"
proof -
  from assms have ne: "m1 \<noteq> m2" by auto
  then have eq: "\<not> eq_member m1 (PyMember m2) \<and> ne_member m1 (PyMember m2)"
    by (auto simp: eq_member_def ne_member_def)
  have h1: "hash_member py_hash m1 = py_hash (owner_name m1 @ ''.'' @ name m1)"
    and h2: "hash_member py_hash m2 = py_hash (owner_name m2 @ ''.'' @ name m2)"
    by (simp_all add: hash_member_def hash_text_def)
  have same: "owner_name m1 = owner_name m2 \<and> name m1 = name m2
              \<longrightarrow> hash_member py_hash m1 = hash_member py_hash m2"
    by (simp add: hash_member_def hash_text_def)
  have diff: "hash_text m1 \<noteq> hash_text m2
                \<and> (hash_member py_hash m1 = hash_member py_hash m2
                     \<longrightarrow> (\<exists>s s'. s \<noteq> s' \<and> py_hash s = py_hash s'))"
    if "CHR ''.'' \<notin> set (owner_name m1) \<and> CHR ''.'' \<notin> set (owner_name m2)
        \<and> owner_name m1 \<noteq> owner_name m2"
  proof -
    have t: "hash_text m1 \<noteq> hash_text m2"
      using that hash_text_inj [of "owner_name m1" "owner_name m2" "name m1" "name m2"]
      by (auto simp: hash_text_def)
    then have "hash_member py_hash m1 = hash_member py_hash m2
                 \<longrightarrow> (\<exists>s s'. s \<noteq> s' \<and> py_hash s = py_hash s')"
      unfolding hash_member_def by blast
    with t show ?thesis by simp
  qed
  from eq h1 h2 same diff show ?thesis by blast
qed

theorem hash_by_class_name_witness:
  "owner red_here \<noteq> owner red_there
   \<and> \<not> eq_member red_here (PyMember red_there) \<and> ne_member red_here (PyMember red_there)
   \<and> hash_member (\<lambda>s. int (length s)) red_here = 9
   \<and> hash_member (\<lambda>s. int (length s)) red_here = hash_member (\<lambda>s. int (length s)) red_there
   \<and> owner red_here \<noteq> owner red_light
   \<and> \<not> eq_member red_here (PyMember red_light)
   \<and> hash_text red_here \<noteq> hash_text red_light"
proof -
  have o1: "owner red_here \<noteq> owner red_there" and o2: "owner red_here \<noteq> owner red_light"
    by (simp_all add: red_here_def red_there_def red_light_def)
  have same: "owner_name red_here = owner_name red_there \<and> name red_here = name red_there"
    by (simp add: red_here_def red_there_def)
  have diff: "CHR ''.'' \<notin> set (owner_name red_here) \<and> CHR ''.'' \<notin> set (owner_name red_light)
              \<and> owner_name red_here \<noteq> owner_name red_light"
    by (simp add: red_here_def red_light_def)
  have nine: "int (length (owner_name red_here @ ''.'' @ name red_here)) = 9"
    by (simp add: red_here_def)
  note a = hash_by_class_name [OF o1, of "\<lambda>s. int (length s)"]
  note b = hash_by_class_name [OF o2, of "\<lambda>s. int (length s)"]
  from a nine have h: "hash_member (\<lambda>s. int (length s)) red_here = 9" by simp
  from a same have e: "hash_member (\<lambda>s. int (length s)) red_here
                         = hash_member (\<lambda>s. int (length s)) red_there" by blast
  from b diff have t: "hash_text red_here \<noteq> hash_text red_light" by blast
  from a b o1 o2 h e t show ?thesis by blast
qed

section \<open>Converting keys\<close>

lemma convert_keys_loop_built:
  assumes "initialize_lookup cls None = (None, t)" and "st = None \<or> st = Some t"
  shows "\<exists>st'. (st' = None \<or> st' = Some t)
           \<and> convert_keys_loop cls st d out = (Inr (rekey (converted_key cls t) d out), st')"
  using assms(2)
proof (induction d arbitrary: st out)
  case Nil
  then show ?case by (simp add: rekey_def)
next
  case (Cons kv d)
  obtain k v where kv: "kv = (k, v)" by (cases kv)
  note fs = from_str_built [OF assms(1)]
  show ?case
  proof (cases "isinstance_str k")
    case False
    then have "\<not> isinstance_cls k cls" using isinstance_cls_str by blast
    with False have ck: "converted_key cls t k = k" by (simp add: converted_key_def)
    from Cons.IH [OF Cons.prems, of "dict_set out k v"] False kv ck show ?thesis
      by (simp add: rekey_def)
  next
    case True
    then have nn: "k \<noteq> PyNone" by (rule isinstance_str_not_None)
    show ?thesis
    proof (cases "isinstance_cls k cls")
      case c: True
      then have ck: "converted_key cls t k = k" by (simp add: converted_key_def)
      have "from_str cls st k False = (Inr k, st)" using fs [OF Cons.prems] c by simp
      with Cons.IH [OF Cons.prems, of "dict_set out k v"] True kv ck nn show ?thesis
        by (simp add: rekey_def)
    next
      case c: False
      let ?r = "table_get t (normalize_str (str_text k))"
      have f1: "from_str cls st k False = (Inr ?r, Some t)"
        using from_str_built_str [OF assms(1) Cons.prems True c] .
      have f2: "from_str cls (Some t) k False = (Inr ?r, Some t)"
        using from_str_built_str [OF assms(1) _ True c, of "Some t"] by simp
      have ck: "converted_key cls t k = (if ?r \<noteq> PyNone then ?r else k)"
        using c True by (simp add: converted_key_def)
      from Cons.IH [of "Some t" "dict_set out (converted_key cls t k) v"]
      obtain st' where "st' = None \<or> st' = Some t"
        and "convert_keys_loop cls (Some t) d (dict_set out (converted_key cls t k) v)
               = (Inr (rekey (converted_key cls t) d (dict_set out (converted_key cls t k) v)), st')"
        by auto
      with True kv f1 f2 ck show ?thesis
        by (auto simp: rekey_def)
    qed
  qed
qed

lemma convert_keys_to_str_loop_rekey:
  "convert_keys_to_str_loop cls d out = Inr (rekey (str_key cls) d out)"
proof (induction d arbitrary: out)
  case Nil
  then show ?case by (simp add: rekey_def)
next
  case (Cons kv d)
  obtain k v where kv: "kv = (k, v)" by (cases kv)
  show ?case
  proof (cases "isinstance_cls k cls")
    case True
    then have "py_str k = Inr (str_text k)"
      using isinstance_cls_str py_str_isinstance_str by blast
    with True kv Cons.IH [of "dict_set out (PyStr (str_text k)) v"] show ?thesis
      by (simp add: rekey_def str_key_def)
  next
    case False
    with kv Cons.IH [of "dict_set out k v"] show ?thesis
      by (simp add: rekey_def str_key_def)
  qed
qed

lemma rekey_distinct:
  "distinct (map (\<lambda>kv. f (fst kv)) d) \<Longrightarrow> (\<And>k. k \<in> fst ` set d \<Longrightarrow> \<not> dict_in (f k) out)
   \<Longrightarrow> rekey f d out = out @ map (\<lambda>(k, v). (f k, v)) d"
proof (induction d arbitrary: out)
  case Nil
  then show ?case by (simp add: rekey_def)
next
  case (Cons kv d)
  obtain k v where kv: "kv = (k, v)" by (cases kv)
  have fresh: "\<not> dict_in (f k) out" using Cons.prems(2) [of k] kv by simp
  then have ds: "dict_set out (f k) v = out @ [(f k, v)]" by (rule dict_set_fresh)
  have "rekey f d (out @ [(f k, v)]) = (out @ [(f k, v)]) @ map (\<lambda>(k, v). (f k, v)) d"
  proof (rule Cons.IH)
    show "distinct (map (\<lambda>kv. f (fst kv)) d)" using Cons.prems(1) by simp
  next
    fix k' assume k': "k' \<in> fst ` set d"
    then have "f k' \<noteq> f k" using Cons.prems(1) kv by (auto simp: image_iff)
    moreover have "\<not> dict_in (f k') out" using Cons.prems(2) [of k'] k' by simp
    ultimately show "\<not> dict_in (f k') (out @ [(f k, v)])"
      by (auto simp: dict_in_keys)
  qed
  with ds kv show ?case by (simp add: rekey_def)
qed

lemma rekey_keys: "fst ` set (rekey f d out) = fst ` set out \<union> f ` fst ` set d"
proof (induction d arbitrary: out)
  case Nil
  then show ?case by (simp add: rekey_def)
next
  case (Cons kv d)
  obtain k v where kv: "kv = (k, v)" by (cases kv)
  have "rekey f (kv # d) out = rekey f d (dict_set out (f k) v)"
    by (simp add: rekey_def kv)
  then have "fst ` set (rekey f (kv # d) out) = insert (f k) (fst ` set out) \<union> f ` fst ` set d"
    by (simp only: Cons.IH dict_set_keys)
  then show ?case by (simp add: kv)
qed

lemma rekey_keys_distinct: "distinct (map fst out) \<Longrightarrow> distinct (map fst (rekey f d out))"
  unfolding rekey_def
  by (induction d arbitrary: out) (auto simp: dict_set_distinct)

lemma rekey_map_of:
  "map_of (rekey f d out) k' =
     (case map_of (rev (map (\<lambda>(k, v). (f k, v)) d)) k' of
        Some v \<Rightarrow> Some v
      | None \<Rightarrow> map_of out k')"
  unfolding rekey_def
  by (induction d arbitrary: out)
     (auto simp: map_of_dict_set map_add_def split: option.splits)

lemma rekey_length:
  assumes "distinct (map fst d)"
  shows "length (rekey f d []) = card (f ` fst ` set d)"
proof -
  have "distinct (map fst (rekey f d []))" by (rule rekey_keys_distinct) simp
  then have "length (rekey f d []) = card (fst ` set (rekey f d []))"
    by (metis distinct_card length_map set_map)
  then show ?thesis by (simp add: rekey_keys)
qed

lemma rekey_shrinks:
  assumes "distinct (map fst d)" and "k1 \<in> fst ` set d" and "k2 \<in> fst ` set d"
    and "k1 \<noteq> k2" and "f k1 = f k2"
  shows "length (rekey f d []) < length d"
proof -
  let ?K = "fst ` set d"
  have fin: "finite ?K" by simp
  have len: "length d = card ?K" using assms(1) by (metis distinct_card length_map set_map)
  have "\<not> inj_on f ?K" using assms(2-5) by (auto simp: inj_on_def)
  then have "card (f ` ?K) \<noteq> card ?K" using fin eq_card_imp_inj_on by blast
  moreover have "card (f ` ?K) \<le> card ?K" using fin by (rule card_image_le)
  ultimately show ?thesis using len rekey_length [OF assms(1), of f] by simp
qed

text \<open>Every member in the table of a class is a member of that class.\<close>

lemma register_aliases_values:
  "map_of (snd (register_aliases e ns t)) k = Some m \<Longrightarrow> m = e \<or> map_of t k = Some m"
proof (induction ns arbitrary: t)
  case Nil
  then show ?case by simp
next
  case (Cons n ns)
  then show ?case
    by (fastforce simp: Let_def dest: map_of_dict_set_Some split: if_splits)
qed

lemma register_member_values:
  assumes "map_of (snd (register_member e t)) k = Some m"
  shows "m = e \<or> map_of t k = Some m"
proof (cases "dict_in (normalize_str (name e)) t")
  case True
  with assms show ?thesis by (simp add: register_member_def Let_def)
next
  case False
  let ?t1 = "dict_set t (normalize_str (name e)) e"
  let ?t2 = "dict_set ?t1 (normalize_str (member_value e)) e"
  have t1: "\<And>k m. map_of ?t1 k = Some m \<Longrightarrow> m = e \<or> map_of t k = Some m"
    by (auto dest: map_of_dict_set_Some)
  have t2: "\<And>k m. map_of ?t2 k = Some m \<Longrightarrow> m = e \<or> map_of t k = Some m"
    by (auto dest!: map_of_dict_set_Some)
  show ?thesis
  proof (cases "startswith (member_value e) ''alias:''")
    case sw: False
    with False assms t1 show ?thesis by (simp add: register_member_def Let_def)
  next
    case sw: True
    show ?thesis
    proof (cases "literal_eval_names e")
      case (Inl err)
      with False sw assms t2 show ?thesis by (simp add: register_member_def Let_def)
    next
      case (Inr ns)
      with False sw assms have "map_of (snd (register_aliases e ns ?t2)) k = Some m"
        by (simp add: register_member_def Let_def)
      with register_aliases_values [of e ns ?t2 k m] t2 show ?thesis by blast
    qed
  qed
qed

lemma register_all_values:
  "map_of (snd (register_all es t)) k = Some m \<Longrightarrow> m \<in> set es \<or> map_of t k = Some m"
proof (induction es arbitrary: t)
  case Nil
  then show ?case by simp
next
  case (Cons e es)
  obtain r t' where rm: "register_member e t = (r, t')" by (cases "register_member e t")
  show ?case
  proof (cases r)
    case (Some err)
    with rm Cons.prems register_member_values [of e t k m] show ?thesis by auto
  next
    case None
    with rm Cons.prems have "map_of (snd (register_all es t')) k = Some m" by simp
    with Cons.IH have "m \<in> set es \<or> map_of t' k = Some m" by simp
    with rm register_member_values [of e t k m] show ?thesis by auto
  qed
qed

lemma canonical_members_subset: "set (canonical_members seen es) \<subseteq> set seen \<union> set es"
proof (induction es arbitrary: seen)
  case Nil
  then show ?case by simp
next
  case (Cons e es)
  from Cons.IH [of seen] Cons.IH [of "seen @ [e]"] show ?case by auto
qed

lemma list_cls_entries: "set (list_cls cls) \<subseteq> set (class_entries cls)"
  using canonical_members_subset [of "[]" "class_entries cls"] by (simp add: list_cls_def)

lemma table_members_owned:
  assumes "initialize_lookup cls None = (r, t)" and "table_get t k = PyMember m"
  shows "m \<in> set (list_cls cls) \<and> owner m = cls_id cls"
proof -
  from assms(2) have "map_of t k = Some m"
    by (simp add: table_get_def split: option.splits)
  with assms(1) register_all_values [of "list_cls cls" "[]" k m]
  have "m \<in> set (list_cls cls)" by (simp add: initialize_lookup_def)
  then show ?thesis using list_cls_entries [of cls] by (auto simp: class_entries_def)
qed

lemma converted_key_member:
  assumes built: "initialize_lookup cls None = (None, t)" and st: "st = None \<or> st = Some t"
    and "owner m = cls_id cls" and "converted_key cls t k = PyMember m"
  shows "fst (from_str cls st k False) = Inr (PyMember m)"
proof (cases "isinstance_cls k cls")
  case True
  with assms(4) show ?thesis by (simp add: from_str_built [OF built st] converted_key_def)
next
  case False
  show ?thesis
  proof (cases "isinstance_str k \<and> table_get t (normalize_str (str_text k)) \<noteq> PyNone")
    case True
    with False assms(4) show ?thesis
      using from_str_built_str [OF built st _ False]
      by (auto simp: converted_key_def)
  next
    case f: False
    with False assms(4) have "k = PyMember m" by (auto simp: converted_key_def)
    with assms(3) False show ?thesis by simp
  qed
qed

lemma converted_key_resolved:
  assumes built: "initialize_lookup cls None = (None, t)" and st: "st = None \<or> st = Some t"
    and "fst (from_str cls st (PyStr s) False) = Inr (PyMember m)"
  shows "converted_key cls t (PyStr s) = PyMember m \<and> owner m = cls_id cls"
proof -
  from assms(3) have tg: "table_get t (normalize_str s) = PyMember m"
    using from_str_built_str [OF built st, of "PyStr s"] by (simp add: str_text_PyStr)
  then show ?thesis using table_members_owned [OF built tg]
    by (simp add: converted_key_def str_text_PyStr)
qed

lemma converted_key_PyStr:
  "converted_key cls t k = PyStr s \<Longrightarrow> k = PyStr s \<and> table_get t (normalize_str s) = PyNone"
  using table_get_cases [of t "normalize_str (str_text k)"]
  by (cases "isinstance_cls k cls")
     (auto simp: converted_key_def str_text_PyStr split: if_splits)

text \<open>
  C9, as stated, fails: the mapping with the single key \<open>data_type\<close> has no two keys
  with the same string form, its key resolves to \<open>DATA_TYPE\<close>, and the round trip
  returns the key \<open>DATA_TYPE\<close>, not \<open>data_type\<close>.
\<close>

theorem round_trip_counterexample:
  "distinct (map fst [(PyStr ''data_type'', 1::int)])
   \<and> fst (from_str Kinds None (PyStr ''data_type'') False) = Inr (PyMember kinds_DATA_TYPE)
   \<and> round_trip Kinds None [(PyStr ''data_type'', 1::int)] = Inr [(PyStr ''DATA_TYPE'', 1)]
   \<and> round_trip Kinds None [(PyStr ''data_type'', 1::int)] \<noteq> Inr [(PyStr ''data_type'', 1)]
   \<and> fst (from_str Kinds None (PyMember kinds_DATA_TYPE) False) = Inr (PyMember kinds_DATA_TYPE)
   \<and> round_trip Kinds None [(PyMember kinds_DATA_TYPE, 1::int)] = Inr [(PyStr ''DATA_TYPE'', 1)]
   \<and> round_trip Kinds None [(PyMember kinds_DATA_TYPE, 1::int)]
       \<noteq> Inr [(PyMember kinds_DATA_TYPE, 1)]"
  by code_simp

text \<open>
  C9, amended. On a class whose table builds, \<open>convert_keys\<close> followed by
  \<open>convert_keys_to_str\<close> restores the original mapping, order included, when every
  original key that resolves to a member is the plain string of that member's
  canonical name.
\<close>

theorem round_trip_canonical_names:
  assumes built: "initialize_lookup cls None = (None, t)" and st: "st = None \<or> st = Some t"
    and dist: "distinct (map fst d)"
    and canon: "\<And>k m. k \<in> fst ` set d \<Longrightarrow> isinstance_str k
                 \<Longrightarrow> fst (from_str cls st k False) = Inr (PyMember m) \<Longrightarrow> k = PyStr (name m)"
  shows "round_trip cls st d = Inr d"
proof -
  let ?ck = "converted_key cls t" and ?sk = "str_key cls"
  have restored: "?sk (?ck k) = k" if k: "k \<in> fst ` set d" for k
  proof (cases "isinstance_cls k cls")
    case True
    then obtain m where m: "k = PyMember m" by (cases k) auto
    from True have "fst (from_str cls st k False) = Inr k"
      by (simp add: from_str_built [OF built st])
    with canon [OF k, of m] m show ?thesis by simp
  next
    case False
    show ?thesis
    proof (cases "isinstance_str k \<and> table_get t (normalize_str (str_text k)) \<noteq> PyNone")
      case f: False
      with False have "?ck k = k" by (auto simp: converted_key_def)
      with False show ?thesis by (simp add: str_key_def)
    next
      case t: True
      then obtain m where m: "table_get t (normalize_str (str_text k)) = PyMember m"
        using table_get_cases [of t "normalize_str (str_text k)"] by auto
      have "fst (from_str cls st k False) = Inr (PyMember m)"
        using from_str_built_str [OF built st _ False, of] t m by simp
      with canon [OF k, of m] t have keq: "k = PyStr (name m)" by simp
      have own: "owner m = cls_id cls" using table_members_owned [OF built m] by simp
      have "?ck k = PyMember m" using False t m by (simp add: converted_key_def)
      with own keq show ?thesis by (simp add: str_key_def str_text_PyMember)
    qed
  qed
  have inj: "inj_on ?ck (fst ` set d)"
    by (rule inj_on_inverseI [of _ ?sk]) (rule restored)
  have d1: "distinct (map (\<lambda>kv. ?ck (fst kv)) d)"
  proof -
    have "distinct (map ?ck (map fst d))"
      using dist inj by (simp only: distinct_map set_map)
    then show ?thesis by (simp add: comp_def)
  qed
  obtain st' where ck: "convert_keys_loop cls st d [] = (Inr (rekey ?ck d []), st')"
    using convert_keys_loop_built [OF built st, of d "[]"] by auto
  have r1: "rekey ?ck d [] = map (\<lambda>(k, v). (?ck k, v)) d"
    using rekey_distinct [of ?ck d "[]"] d1 by (simp add: dict_in_empty)
  let ?d' = "map (\<lambda>(k, v). (?ck k, v)) d"
  have d2: "distinct (map (\<lambda>kv. ?sk (fst kv)) ?d')"
  proof -
    have "map (\<lambda>kv. ?sk (fst kv)) ?d' = map fst d"
      using restored by (induction d) (auto simp: image_iff)
    with dist show ?thesis by (simp only:)
  qed
  have r2: "rekey ?sk ?d' [] = map (\<lambda>(k, v). (?sk k, v)) ?d'"
    using rekey_distinct [of ?sk ?d' "[]"] d2 by (simp add: dict_in_empty)
  have "map (\<lambda>(k, v). (?sk k, v)) ?d' = d"
    using restored by (induction d) (auto simp: image_iff)
  with ck r1 r2 show ?thesis
    by (simp add: round_trip_def convert_keys_def convert_keys_to_str_def
          convert_keys_to_str_loop_rekey)
qed

theorem round_trip_canonical_names_witness:
  "initialize_lookup Kinds None = (None, kinds_table)
   \<and> distinct (map fst [(PyStr ''DATA_TYPE'', 1::int), (PyStr ''other'', 2), (PyInt 5, 3)])
   \<and> fst (from_str Kinds None (PyStr ''DATA_TYPE'') False) = Inr (PyMember kinds_DATA_TYPE)
   \<and> round_trip Kinds None [(PyStr ''DATA_TYPE'', 1::int), (PyStr ''other'', 2), (PyInt 5, 3)]
       = Inr [(PyStr ''DATA_TYPE'', 1), (PyStr ''other'', 2), (PyInt 5, 3)]"
proof -
  let ?d = "[(PyStr ''DATA_TYPE'', 1::int), (PyStr ''other'', 2), (PyInt 5, 3)]"
  have dist: "distinct (map fst ?d)" by simp
  have f1: "fst (from_str Kinds None (PyStr ''DATA_TYPE'') False) = Inr (PyMember kinds_DATA_TYPE)"
    by code_simp
  have f2: "fst (from_str Kinds None (PyStr ''other'') False) = Inr PyNone"
    by code_simp
  have n: "name kinds_DATA_TYPE = ''DATA_TYPE''" by (simp add: kinds_DATA_TYPE_def)
  have canon: "k = PyStr (name m)"
    if "k \<in> fst ` set ?d" and "isinstance_str k"
      and "fst (from_str Kinds None k False) = Inr (PyMember m)" for k m
    using that f1 f2 n by auto
  have "round_trip Kinds None ?d = Inr ?d"
    by (rule round_trip_canonical_names [OF kinds_built _ dist canon]) simp_all
  with kinds_built dist f1 show ?thesis by blast
qed

text \<open>
  C10. \<open>convert_keys\<close> can shrink a mapping: when two string keys resolve to the same
  member, the result has fewer entries than the input, neither string is a key of it
  any more, and the member key carries the value of the later of the two (no key after
  it resolving to that member). For \<open>data_type\<close> and \<open>DATA-TYPE\<close> in \<open>Kinds\<close> the three
  entries become two.
\<close>

theorem convert_keys_collapses:
  assumes built: "initialize_lookup cls None = (None, t)" and st: "st = None \<or> st = Some t"
    and d: "d = pre @ (PyStr s1, v1) # mid @ (PyStr s2, v2) # post"
    and dist: "distinct (map fst d)"
    and r1: "fst (from_str cls st (PyStr s1) False) = Inr (PyMember m)"
    and r2: "fst (from_str cls st (PyStr s2) False) = Inr (PyMember m)"
    and post: "\<And>k. k \<in> fst ` set post \<Longrightarrow> fst (from_str cls st k False) \<noteq> Inr (PyMember m)"
  shows "\<exists>d'. fst (convert_keys cls st d) = Inr d' \<and> length d' < length d
           \<and> map_of d' (PyMember m) = Some v2
           \<and> PyStr s1 \<notin> fst ` set d' \<and> PyStr s2 \<notin> fst ` set d'"
proof -
  let ?ck = "converted_key cls t"
  let ?d' = "rekey ?ck d []"
  obtain st' where ck: "convert_keys_loop cls st d [] = (Inr ?d', st')"
    using convert_keys_loop_built [OF built st, of d "[]"] by auto
  then have res: "fst (convert_keys cls st d) = Inr ?d'" by (simp add: convert_keys_def)
  have c1: "?ck (PyStr s1) = PyMember m" and own: "owner m = cls_id cls"
    using converted_key_resolved [OF built st r1] by simp_all
  have c2: "?ck (PyStr s2) = PyMember m"
    using converted_key_resolved [OF built st r2] by simp
  have ne: "PyStr s1 \<noteq> PyStr s2" using dist d by auto
  have len: "length ?d' < length d"
    by (rule rekey_shrinks [OF dist, of "PyStr s1" "PyStr s2"])
       (use d ne c1 c2 in \<open>auto simp: image_iff\<close>)
  have nopost: "map_of (rev (map (\<lambda>(k, v). (?ck k, v)) post)) (PyMember m) = None"
  proof (rule ccontr)
    assume "map_of (rev (map (\<lambda>(k, v). (?ck k, v)) post)) (PyMember m) \<noteq> None"
    then have "PyMember m \<in> fst ` set (rev (map (\<lambda>(k, v). (?ck k, v)) post))"
      by (simp only: map_of_eq_None_iff) simp
    then have "PyMember m \<in> ?ck ` fst ` set post"
      by (force simp: image_iff)
    then obtain k where k: "k \<in> fst ` set post" and "?ck k = PyMember m"
      by (metis imageE)
    with converted_key_member [OF built st own] post [OF k] show False by simp
  qed
  have val: "map_of ?d' (PyMember m) = Some v2"
    using nopost c2 by (simp add: rekey_map_of d map_add_def)
  have gone: "PyStr s \<notin> fst ` set ?d'" if "?ck (PyStr s) = PyMember m" for s
  proof
    assume "PyStr s \<in> fst ` set ?d'"
    then have "PyStr s \<in> ?ck ` fst ` set d"
      by (simp add: rekey_keys)
    then obtain k where "k \<in> fst ` set d" and "?ck k = PyStr s"
      by (metis imageE)
    with converted_key_PyStr [of cls t k s] that show False
      by (auto simp: converted_key_def split: if_splits)
  qed
  from res len val gone [OF c1] gone [OF c2] show ?thesis by blast
qed

theorem convert_keys_collapses_witness:
  "initialize_lookup Kinds None = (None, kinds_table)
   \<and> distinct (map fst [(PyStr ''data_type'', 1::int), (PyStr ''x'', 5), (PyStr ''DATA-TYPE'', 2)])
   \<and> fst (from_str Kinds None (PyStr ''data_type'') False) = Inr (PyMember kinds_DATA_TYPE)
   \<and> fst (from_str Kinds None (PyStr ''DATA-TYPE'') False) = Inr (PyMember kinds_DATA_TYPE)
   \<and> (\<exists>d'. fst (convert_keys Kinds None
                 [(PyStr ''data_type'', 1::int), (PyStr ''x'', 5), (PyStr ''DATA-TYPE'', 2)]) = Inr d'
           \<and> length d'
               < length [(PyStr ''data_type'', 1::int), (PyStr ''x'', 5), (PyStr ''DATA-TYPE'', 2)]
           \<and> map_of d' (PyMember kinds_DATA_TYPE) = Some 2
           \<and> PyStr ''data_type'' \<notin> fst ` set d' \<and> PyStr ''DATA-TYPE'' \<notin> fst ` set d')
   \<and> fst (convert_keys Kinds None
            [(PyStr ''data_type'', 1::int), (PyStr ''x'', 5), (PyStr ''DATA-TYPE'', 2)])
       = Inr [(PyMember kinds_DATA_TYPE, 2), (PyStr ''x'', 5)]"
proof -
  let ?d = "[(PyStr ''data_type'', 1::int), (PyStr ''x'', 5), (PyStr ''DATA-TYPE'', 2)]"
  have dist: "distinct (map fst ?d)" by simp
  have d: "?d = [] @ (PyStr ''data_type'', 1) # [(PyStr ''x'', 5)] @ (PyStr ''DATA-TYPE'', 2) # []"
    by simp
  have r1: "fst (from_str Kinds None (PyStr ''data_type'') False) = Inr (PyMember kinds_DATA_TYPE)"
    by code_simp
  have r2: "fst (from_str Kinds None (PyStr ''DATA-TYPE'') False) = Inr (PyMember kinds_DATA_TYPE)"
    by code_simp
  have ex: "fst (convert_keys Kinds None ?d) = Inr [(PyMember kinds_DATA_TYPE, 2), (PyStr ''x'', 5)]"
    by code_simp
  have "\<exists>d'. fst (convert_keys Kinds None ?d) = Inr d' \<and> length d' < length ?d
           \<and> map_of d' (PyMember kinds_DATA_TYPE) = Some 2
           \<and> PyStr ''data_type'' \<notin> fst ` set d' \<and> PyStr ''DATA-TYPE'' \<notin> fst ` set d'"
    by (rule convert_keys_collapses [OF kinds_built _ d dist r1 r2]) simp_all
  with kinds_built dist r1 r2 ex show ?thesis by blast
qed

end
